theory Spec2Isabelle
  imports Complex_Main
begin

section \<open>Data model\<close>

text \<open>
  The program is \<^verbatim>\<open>src/DensLowRank/model/continuous/low_rank.py\<close>. Python floats and numpy
  \<^verbatim>\<open>float64\<close> values are modelled as exact reals; the three places where numpy leaves the
  reals (division by zero, the logarithm of a non-positive number, the square root of a
  negative number) are written out. The float power \<^verbatim>\<open>x**y\<close> of the two density estimators
  is not taken as exact: its rounding decides which branch they take, so it is a
  parameter of their models. Output on \<^verbatim>\<open>stdout\<close> (\<^verbatim>\<open>print\<close>) is not modelled.
\<close>

text \<open>The Python exceptions the three functions can raise.\<close>

datatype error =
    NameError string
  | TypeError
  | ValueError
  | OverflowError
  | IndexError
  | ZeroDivisionError
  | AxisError

text \<open>
  The value of a numpy division: numpy does not raise on a zero divisor, it warns and
  yields \<^verbatim>\<open>nan\<close> or an infinity.
\<close>

datatype npfloat = Fin real | NaN | PosInf | NegInf

definition np_true_divide :: "real \<Rightarrow> real \<Rightarrow> npfloat" where
  "np_true_divide x y =
     (if y \<noteq> 0 then Fin (x / y)
      else if x = 0 then NaN
      else if 0 < x then PosInf else NegInf)"

text \<open>A two-dimensional numpy array: its shape and its entries.\<close>

datatype 'a ndarray = NDArray (nrows: nat) (ncols: nat) (entry: "nat \<Rightarrow> nat \<Rightarrow> 'a")

definition tolist :: "'a ndarray \<Rightarrow> 'a list list" where
  "tolist A = map (\<lambda>i. map (\<lambda>j. entry A i j) [0..<ncols A]) [0..<nrows A]"

definition np_zeros :: "nat \<Rightarrow> nat \<Rightarrow> real ndarray" where
  "np_zeros r c = NDArray r c (\<lambda>i j. 0)"

definition np_sum :: "real ndarray \<Rightarrow> real" where
  "np_sum A = (\<Sum>i<nrows A. \<Sum>j<ncols A. entry A i j)"

definition np_sum_axis1 :: "real ndarray \<Rightarrow> real list" where
  "np_sum_axis1 A = map (\<lambda>i. \<Sum>j<ncols A. entry A i j) [0..<nrows A]"

definition np_sum_axis0 :: "real ndarray \<Rightarrow> real list" where
  "np_sum_axis0 A = map (\<lambda>j. \<Sum>i<nrows A. entry A i j) [0..<ncols A]"

definition np_argwhere :: "(real \<Rightarrow> bool) \<Rightarrow> real list \<Rightarrow> nat list" where
  "np_argwhere P xs = filter (\<lambda>i. P (xs ! i)) [0..<length xs]"

text \<open>numpy broadcasting of one dimension: equal sizes, or one of them is 1.\<close>

definition broadcast_dim :: "nat \<Rightarrow> nat \<Rightarrow> error + nat" where
  "broadcast_dim a b =
     (if a = b then Inr a
      else if a = 1 then Inr b
      else if b = 1 then Inr a
      else Inl ValueError)"

definition bc :: "nat \<Rightarrow> nat \<Rightarrow> nat" where
  "bc m i = (if m = 1 then 0 else i)"

text \<open>\<^verbatim>\<open>(Y1+Y2)/2\<close>\<close>

definition np_average :: "real ndarray \<Rightarrow> real ndarray \<Rightarrow> error + npfloat ndarray" where
  "np_average Y1 Y2 =
     (case broadcast_dim (nrows Y1) (nrows Y2) of
        Inl e \<Rightarrow> Inl e
      | Inr r \<Rightarrow>
        (case broadcast_dim (ncols Y1) (ncols Y2) of
           Inl e \<Rightarrow> Inl e
         | Inr c \<Rightarrow>
           Inr (NDArray r c (\<lambda>i j.
             Fin ((entry Y1 (bc (nrows Y1) i) (bc (ncols Y1) j)
                   + entry Y2 (bc (nrows Y2) i) (bc (ncols Y2) j)) / 2)))))"

section \<open>Algorithm 1: \<^verbatim>\<open>our_algo\<close>\<close>

text \<open>
  The module's global scope, as far as \<^verbatim>\<open>our_algo\<close> reads it: the names \<^verbatim>\<open>d1\<close> and
  \<^verbatim>\<open>d2\<close> are not assigned in the function (the assignment is commented out), so Python
  looks them up among the globals.
\<close>

datatype pyval = PyInt int | PyFloat npfloat

type_synonym globals = "string \<rightharpoonup> pyval"

text \<open>\<^verbatim>\<open>np.zeros((d1,d2))\<close> with \<^verbatim>\<open>d1\<close>, \<^verbatim>\<open>d2\<close> read from the globals.\<close>

definition alloc_res :: "globals \<Rightarrow> error + real ndarray" where
  "alloc_res genv =
     (case genv ''d1'' of
        None \<Rightarrow> Inl (NameError ''d1'')
      | Some v1 \<Rightarrow>
        (case genv ''d2'' of
           None \<Rightarrow> Inl (NameError ''d2'')
         | Some v2 \<Rightarrow>
           (case (v1, v2) of
              (PyInt a, PyInt b) \<Rightarrow>
                if a < 0 \<or> b < 0 then Inl ValueError else Inr (np_zeros (nat a) (nat b))
            | _ \<Rightarrow> Inl TypeError)))"

text \<open>\<^verbatim>\<open>T = int(np.log(d)/np.log(2))\<close>: \<^verbatim>\<open>np.log(0)\<close> is \<^verbatim>\<open>-inf\<close>, of a negative number \<^verbatim>\<open>nan\<close>.\<close>

definition level_count :: "int \<Rightarrow> error + nat" where
  "level_count d =
     (if d = 0 then Inl OverflowError
      else if d < 0 then Inl ValueError
      else Inr (nat \<lfloor>ln (real_of_int d) / ln 2\<rfloor>))"

text \<open>
  The index sets \<^verbatim>\<open>I\<close> (from \<^verbatim>\<open>p\<close>) and \<^verbatim>\<open>J\<close> (from \<^verbatim>\<open>q\<close>) at level \<open>t\<close> of \<open>T\<close>:
  \<^verbatim>\<open>np.argwhere((p <= 2**(-t)) & (p > 2**(-t-1)))\<close> below \<open>T\<close>, \<^verbatim>\<open>np.argwhere(p <= 2**(-t))\<close> at \<open>T\<close>.
\<close>

definition bucket :: "nat \<Rightarrow> nat \<Rightarrow> real list \<Rightarrow> nat list" where
  "bucket T t p =
     (if t < T then np_argwhere (\<lambda>x. x \<le> 2 powi (- int t) \<and> x > 2 powi (- int t - 1)) p
      else np_argwhere (\<lambda>x. x \<le> 2 powi (- int t)) p)"

text \<open>Reading or writing \<^verbatim>\<open>A[I[i],J[j]]\<close> for every \<open>i\<close>, \<open>j\<close> raises as soon as one index is out of range.\<close>

definition block_in_bounds :: "'a ndarray \<Rightarrow> nat list \<Rightarrow> nat list \<Rightarrow> bool" where
  "block_in_bounds A I J =
     (I = [] \<or> J = [] \<or> (list_all (\<lambda>i. i < nrows A) I \<and> list_all (\<lambda>j. j < ncols A) J))"

definition submatrix :: "real ndarray \<Rightarrow> nat list \<Rightarrow> nat list \<Rightarrow> real ndarray" where
  "submatrix Y2 I J = NDArray (length I) (length J) (\<lambda>i j. entry Y2 (I ! i) (J ! j))"

definition set_entry :: "real ndarray \<Rightarrow> nat \<Rightarrow> nat \<Rightarrow> real \<Rightarrow> real ndarray" where
  "set_entry A r c v = NDArray (nrows A) (ncols A) ((entry A)(r := (entry A r)(c := v)))"

text \<open>The double loop \<^verbatim>\<open>res[I[i],J[j]] = V[i,j]\<close>.\<close>

definition assign_block :: "real ndarray \<Rightarrow> nat list \<Rightarrow> nat list \<Rightarrow> (nat \<Rightarrow> nat \<Rightarrow> real) \<Rightarrow> real ndarray" where
  "assign_block res I J V =
     fold (\<lambda>i res. fold (\<lambda>j res. set_entry res (I ! i) (J ! j) (V i j)) [0..<length J] res)
       [0..<length I] res"

definition energy_cutoff :: "int \<Rightarrow> int \<Rightarrow> real \<Rightarrow> real \<Rightarrow> real" where
  "energy_cutoff n d alpha Cbar =
     2 * Cbar * alpha * ln (real_of_int d) / (real_of_int n * ln 2)"

text \<open>
  \<^verbatim>\<open>tau = np.log(d) * np.sqrt(cstar * 2**(1-min(t,u))/n)\<close>; the square root of a negative
  number is \<^verbatim>\<open>nan\<close> (here \<open>None\<close>), and every comparison with \<^verbatim>\<open>nan\<close> is false.
\<close>

definition tau :: "int \<Rightarrow> int \<Rightarrow> real \<Rightarrow> nat \<Rightarrow> nat \<Rightarrow> real option" where
  "tau n d cstar t u =
     (let x = cstar * 2 powi (1 - int (min t u)) / real_of_int n
      in if x < 0 then None else Some (ln (real_of_int d) * sqrt x))"

text \<open>\<^verbatim>\<open>l = len(s[s>=tau])\<close>\<close>

definition rank_l :: "real option \<Rightarrow> real list \<Rightarrow> nat" where
  "rank_l tau_opt s =
     (case tau_opt of None \<Rightarrow> 0 | Some ta \<Rightarrow> length (filter (\<lambda>x. x \<ge> ta) s))"

text \<open>\<^verbatim>\<open>U[:,:l]*s[:l]\<close>: the columns of \<open>U\<close> scaled by the singular values, with broadcasting.\<close>

definition scale_cols :: "real ndarray \<Rightarrow> real list \<Rightarrow> nat \<Rightarrow> error + real ndarray" where
  "scale_cols U s l =
     (let a = min l (ncols U); b = min l (length s) in
      case broadcast_dim a b of
        Inl e \<Rightarrow> Inl e
      | Inr c \<Rightarrow> Inr (NDArray (nrows U) c (\<lambda>i k. entry U i (bc a k) * s ! (bc b k))))"

text \<open>\<^verbatim>\<open>np.dot(A, B)\<close>\<close>

definition np_dot :: "real ndarray \<Rightarrow> real ndarray \<Rightarrow> error + real ndarray" where
  "np_dot A B =
     (if ncols A = nrows B
      then Inr (NDArray (nrows A) (ncols B) (\<lambda>i j. \<Sum>k<ncols A. entry A i k * entry B k j))
      else Inl ValueError)"

text \<open>\<^verbatim>\<open>H = np.dot(U[:,:l]*s[:l], Vh[:l,:])\<close>\<close>

definition reconstruct :: "real ndarray \<Rightarrow> real list \<Rightarrow> real ndarray \<Rightarrow> nat \<Rightarrow> error + real ndarray" where
  "reconstruct U s Vh l =
     (case scale_cols U s l of
        Inl e \<Rightarrow> Inl e
      | Inr A \<Rightarrow> np_dot A (NDArray (min l (nrows Vh)) (ncols Vh) (entry Vh)))"

text \<open>
  \<^verbatim>\<open>np.linalg.svd\<close> is a library routine: it is a parameter of the model, a function from
  the block \<open>M\<close> to the triple \<open>(U, s, Vh)\<close>.
\<close>

type_synonym svd_fun = "real ndarray \<Rightarrow> real ndarray \<times> real list \<times> real ndarray"

text \<open>
  The body of the two inner loops for one pair of levels \<open>(t, u)\<close>, lines 120 to 140, in
  two parts. First the values to be written: the block \<open>M\<close> of \<open>Y2\<close>, and either
  \<open>Y2\<close>'s own entries (energy test) or the entries of the truncated reconstruction \<open>H\<close>.
\<close>

definition block_values ::
  "svd_fun \<Rightarrow> int \<Rightarrow> int \<Rightarrow> real ndarray \<Rightarrow> real \<Rightarrow> real \<Rightarrow> real \<Rightarrow> nat list \<Rightarrow> nat list
     \<Rightarrow> nat \<Rightarrow> nat \<Rightarrow> error + (nat \<Rightarrow> nat \<Rightarrow> real)" where
  "block_values svd n d Y2 alpha cstar Cbar I J t u =
     (if \<not> block_in_bounds Y2 I J then Inl IndexError
      else
        let M = submatrix Y2 I J in
        if np_sum M < energy_cutoff n d alpha Cbar then
          Inr (\<lambda>i j. entry Y2 (I ! i) (J ! j))
        else
          (case svd M of (U, s, Vh) \<Rightarrow>
             (case reconstruct U s Vh (rank_l (tau n d cstar t u) s) of
                Inl e \<Rightarrow> Inl e
              | Inr H \<Rightarrow>
                  if block_in_bounds H [0..<length I] [0..<length J]
                  then Inr (entry H)
                  else Inl IndexError)))"

text \<open>Then the write loops \<^verbatim>\<open>res[I[i],J[j]] = ...\<close> of lines 128 to 130 and 138 to 140.\<close>

definition block_step ::
  "svd_fun \<Rightarrow> int \<Rightarrow> int \<Rightarrow> real ndarray \<Rightarrow> real \<Rightarrow> real \<Rightarrow> real \<Rightarrow> nat list \<Rightarrow> nat list
     \<Rightarrow> nat \<Rightarrow> nat \<Rightarrow> real ndarray \<Rightarrow> error + real ndarray" where
  "block_step svd n d Y2 alpha cstar Cbar I J t u res =
     (case block_values svd n d Y2 alpha cstar Cbar I J t u of
        Inl e \<Rightarrow> Inl e
      | Inr V \<Rightarrow>
          if block_in_bounds res I J then Inr (assign_block res I J V) else Inl IndexError)"

text \<open>A \<^verbatim>\<open>for\<close> loop whose body may raise: the first exception ends it.\<close>

fun for_loop :: "('a \<Rightarrow> 's \<Rightarrow> error + 's) \<Rightarrow> 'a list \<Rightarrow> 's \<Rightarrow> error + 's" where
  "for_loop body [] st = Inr st"
| "for_loop body (x # xs) st =
     (case body x st of Inl e \<Rightarrow> Inl e | Inr st' \<Rightarrow> for_loop body xs st')"

text \<open>Lines 108 to 140: the loops over \<open>t\<close> and \<open>u\<close>, filling \<^verbatim>\<open>res\<close>.\<close>

definition fill_blocks ::
  "svd_fun \<Rightarrow> int \<Rightarrow> int \<Rightarrow> real ndarray \<Rightarrow> real ndarray \<Rightarrow> real \<Rightarrow> real \<Rightarrow> real \<Rightarrow> nat
     \<Rightarrow> real ndarray \<Rightarrow> error + real ndarray" where
  "fill_blocks svd n d Y1 Y2 alpha cstar Cbar T res =
     (let p = np_sum_axis1 Y1; q = np_sum_axis0 Y1 in
      for_loop (\<lambda>t res.
          let I = bucket T t p in
          for_loop (\<lambda>u res.
              let J = bucket T u q in
              block_step svd n d Y2 alpha cstar Cbar I J t u res)
            [0..<T + 1] res)
        [0..<T + 1] res)"

text \<open>\<^verbatim>\<open>res/np.sum(res)\<close>\<close>

definition divide_by_sum :: "real ndarray \<Rightarrow> npfloat ndarray" where
  "divide_by_sum res =
     NDArray (nrows res) (ncols res) (\<lambda>i j. np_true_divide (entry res i j) (np_sum res))"

text \<open>
  The result matrix before the final division: the \<^verbatim>\<open>else\<close> branch of \<^verbatim>\<open>our_algo\<close> up to
  line 140.
\<close>

definition assemble ::
  "svd_fun \<Rightarrow> globals \<Rightarrow> int \<Rightarrow> int \<Rightarrow> real ndarray \<Rightarrow> real ndarray \<Rightarrow> real \<Rightarrow> real \<Rightarrow> real
     \<Rightarrow> error + real ndarray" where
  "assemble svd genv n d Y1 Y2 alpha cstar Cbar =
     (case alloc_res genv of
        Inl e \<Rightarrow> Inl e
      | Inr res \<Rightarrow>
        (case level_count d of
           Inl e \<Rightarrow> Inl e
         | Inr T \<Rightarrow> fill_blocks svd n d Y1 Y2 alpha cstar Cbar T res))"

text \<open>
  \<^verbatim>\<open>our_algo(n,d,Y1,Y2,alpha,cstar,Cbar)\<close>. For \<open>d \<le> 0\<close> the product \<^verbatim>\<open>d*np.log(d)\<close> is
  \<^verbatim>\<open>nan\<close> and the test \<^verbatim>\<open>n <= d*np.log(d)\<close> is false.
\<close>

definition our_algo ::
  "svd_fun \<Rightarrow> globals \<Rightarrow> int \<Rightarrow> int \<Rightarrow> real ndarray \<Rightarrow> real ndarray \<Rightarrow> real \<Rightarrow> real \<Rightarrow> real
     \<Rightarrow> error + npfloat ndarray" where
  "our_algo svd genv n d Y1 Y2 alpha cstar Cbar =
     (if 0 < d \<and> real_of_int n \<le> real_of_int d * ln (real_of_int d)
      then np_average Y1 Y2
      else
        (case assemble svd genv n d Y1 Y2 alpha cstar Cbar of
           Inl e \<Rightarrow> Inl e
         | Inr res \<Rightarrow> Inr (divide_by_sum res)))"

section \<open>Algorithm 3: \<^verbatim>\<open>our_algo_3\<close>\<close>

text \<open>Arithmetic on numpy floats that may be \<^verbatim>\<open>nan\<close> or infinite.\<close>

fun np_add :: "npfloat \<Rightarrow> npfloat \<Rightarrow> npfloat" where
  "np_add (Fin a) (Fin b) = Fin (a + b)"
| "np_add NaN _ = NaN"
| "np_add _ NaN = NaN"
| "np_add PosInf NegInf = NaN"
| "np_add NegInf PosInf = NaN"
| "np_add PosInf _ = PosInf"
| "np_add _ PosInf = PosInf"
| "np_add NegInf _ = NegInf"
| "np_add _ NegInf = NegInf"

definition np_sign_inf :: "bool \<Rightarrow> npfloat" where
  "np_sign_inf positive = (if positive then PosInf else NegInf)"

fun np_multiply :: "npfloat \<Rightarrow> npfloat \<Rightarrow> npfloat" where
  "np_multiply (Fin a) (Fin b) = Fin (a * b)"
| "np_multiply NaN _ = NaN"
| "np_multiply _ NaN = NaN"
| "np_multiply PosInf (Fin b) = (if b = 0 then NaN else np_sign_inf (0 < b))"
| "np_multiply NegInf (Fin b) = (if b = 0 then NaN else np_sign_inf (b < 0))"
| "np_multiply (Fin a) PosInf = (if a = 0 then NaN else np_sign_inf (0 < a))"
| "np_multiply (Fin a) NegInf = (if a = 0 then NaN else np_sign_inf (a < 0))"
| "np_multiply PosInf PosInf = PosInf"
| "np_multiply NegInf NegInf = PosInf"
| "np_multiply PosInf NegInf = NegInf"
| "np_multiply NegInf PosInf = NegInf"

text \<open>\<^verbatim>\<open>np.min\<close> and \<^verbatim>\<open>np.max\<close> of a one-dimensional array raise \<^verbatim>\<open>ValueError\<close> on an empty one.\<close>

fun np_min :: "real list \<Rightarrow> error + real" where
  "np_min [] = Inl ValueError"
| "np_min (x # xs) = Inr (fold min xs x)"

fun np_max :: "real list \<Rightarrow> error + real" where
  "np_max [] = Inl ValueError"
| "np_max (x # xs) = Inr (fold max xs x)"

text \<open>
  The smoothness constant \<open>L\<close> is positive by the docstrings of both estimators
  (\<^verbatim>\<open>L > 0\<close>): the models take it from the type of the positive reals.
\<close>

typedef posreal = "{x::real. 0 < x}"
  morphisms pos_value Pos
  by (rule exI[of _ 1]) simp

text \<open>
  Python's power \<^verbatim>\<open>x**y\<close> of a positive number \<open>x\<close> to a float \<open>y\<close> is the C library's
  \<^verbatim>\<open>pow\<close>, which rounds: \<^verbatim>\<open>64**(1/3)\<close> is \<^verbatim>\<open>3.9999999999999996\<close>. It is a parameter \<open>pw\<close> of
  the models, a function from the base and the exponent as the source writes them to
  the float that results.
\<close>

type_synonym pow_fun = "real \<Rightarrow> real \<Rightarrow> real"

text \<open>
  The tests \<^verbatim>\<open>R - r < n**(-1/3)*L**(-1/2)\<close> of \<^verbatim>\<open>our_algo_3\<close> and
  \<^verbatim>\<open>R - r < n**(1/3)*L**(-1/2)\<close> of \<^verbatim>\<open>our_algo_2\<close>; \<open>cn\<close> is the power of \<open>n\<close>.
\<close>

definition narrow_test :: "pow_fun \<Rightarrow> real \<Rightarrow> real \<Rightarrow> posreal \<Rightarrow> bool" where
  "narrow_test pw w cn L = (w < cn * pw (pos_value L) (- 1 / 2))"

text \<open>
  Lines 194, 289 and 290: \<^verbatim>\<open>math.floor(w*n**(1/3)*L**(1/2))**(-1)*w\<close> for the width \<open>w\<close> of
  the calibration range. \<^verbatim>\<open>math.floor\<close> returns a Python \<^verbatim>\<open>int\<close>, and the power \<^verbatim>\<open>-1\<close> of the
  \<^verbatim>\<open>int\<close> 0 raises \<^verbatim>\<open>ZeroDivisionError\<close>.
\<close>

definition bin_width :: "pow_fun \<Rightarrow> real \<Rightarrow> nat \<Rightarrow> posreal \<Rightarrow> error + real" where
  "bin_width pw w n L =
     (let k = \<lfloor>w * pw (real n) (1 / 3) * pw (pos_value L) (1 / 2)\<rfloor>
      in if k = 0 then Inl ZeroDivisionError else Inr (1 / real_of_int k * w))"

text \<open>
  \<^verbatim>\<open>np.arange(-math.floor(r/H), math.ceil((1-r)/H-1))\<close>. For \<open>H = 0\<close> the numpy quotients
  are \<^verbatim>\<open>nan\<close> or infinite, which \<^verbatim>\<open>math.floor\<close> refuses.
\<close>

definition grid_offsets :: "real \<Rightarrow> real \<Rightarrow> error + int list" where
  "grid_offsets r H =
     (if H = 0 then (if r = 0 then Inl ValueError else Inl OverflowError)
      else Inr [- \<lfloor>r / H\<rfloor> .. \<lceil>(1 - r) / H - 1\<rceil> - 1])"

text \<open>\<^verbatim>\<open>N[i]\<close> for a numpy integer \<open>i\<close>: a negative index counts from the end.\<close>

definition np_getitem :: "real list \<Rightarrow> int \<Rightarrow> error + real" where
  "np_getitem N i =
     (let m = int (length N); j = (if i < 0 then m + i else i)
      in if 0 \<le> j \<and> j < m then Inr (N ! nat j) else Inl IndexError)"

text \<open>
  One iteration of the loop of \<^verbatim>\<open>f_1\<close> in \<^verbatim>\<open>our_algo_3\<close> (lines 201 to 208), on the state
  \<open>(N, s)\<close>: \<open>c\<close> is the position and \<open>i\<close> the offset; the count of the estimation samples
  in \<open>[r + i\<cdot>H, r + (i+1)\<cdot>H)\<close> is stored at \<open>N[c]\<close>, and \<open>N[i]\<close> is added to \<open>s\<close> when
  \<open>i\<cdot>H \<le> x \<le> (i+1)\<cdot>H\<close>.
\<close>

definition f_1_step ::
  "real \<Rightarrow> real \<Rightarrow> real list \<Rightarrow> real \<Rightarrow> nat \<times> int \<Rightarrow> real list \<times> real \<Rightarrow> error + real list \<times> real" where
  "f_1_step r H samples x ci st =
     (case ci of (c, i) \<Rightarrow> case st of (N, s) \<Rightarrow>
        let a = r + real_of_int i * H;
            b = r + (real_of_int i + 1) * H;
            N' = N[c := real (length (filter (\<lambda>k. a \<le> k \<and> k < b) samples))]
        in if real_of_int i * H \<le> x \<and> x \<le> (real_of_int i + 1) * H
           then (case np_getitem N' i of Inl e \<Rightarrow> Inl e | Inr v \<Rightarrow> Inr (N', s + v))
           else Inr (N', s))"

type_synonym density1 = "real \<Rightarrow> error + npfloat"

text \<open>The closure \<^verbatim>\<open>f_1\<close> returned by the general branch of \<^verbatim>\<open>our_algo_3\<close>.\<close>

definition f_1_univariate :: "real \<Rightarrow> real \<Rightarrow> int list \<Rightarrow> real list \<Rightarrow> density1" where
  "f_1_univariate r H E samples x =
     (case for_loop (f_1_step r H samples x) (enumerate 0 E) (replicate (length E) 0, 0) of
        Inl e \<Rightarrow> Inl e
      | Inr (N, s) \<Rightarrow> Inr (np_multiply (np_true_divide 1 H) (Fin s)))"

text \<open>
  \<^verbatim>\<open>our_algo_3(n,Z,L)\<close>. The argument \<open>n\<close> is overwritten by \<^verbatim>\<open>len(Z)\<close> in the first line.
  The calibration half is \<^verbatim>\<open>Z[:int(n/2)]\<close>, the estimation half \<^verbatim>\<open>Z[int(n/2)+1:]\<close>.
\<close>

definition our_algo_3 :: "pow_fun \<Rightarrow> nat \<Rightarrow> real list \<Rightarrow> posreal \<Rightarrow> error + density1" where
  "our_algo_3 pw n_arg Z L =
     (let n = length Z; cal = take (n div 2) Z in
      case np_min cal of
        Inl e \<Rightarrow> Inl e
      | Inr r \<Rightarrow>
        (case np_max cal of
           Inl e \<Rightarrow> Inl e
         | Inr R \<Rightarrow>
           if narrow_test pw (R - r) (pw (real n) (- 1 / 3)) L
           then Inr (\<lambda>x. Inr (if x \<le> r \<and> x \<ge> R then np_true_divide 1 (R - r) else Fin 0))
           else
             (case bin_width pw (R - r) n L of
                Inl e \<Rightarrow> Inl e
              | Inr H \<Rightarrow>
                (case grid_offsets r H of
                   Inl e \<Rightarrow> Inl e
                 | Inr E \<Rightarrow> Inr (f_1_univariate r H E (drop (n div 2 + 1) Z))))))"

section \<open>Algorithm 2: \<^verbatim>\<open>our_algo_2\<close>\<close>

text \<open>
  \<^verbatim>\<open>h = C/(n**(-1/3)*np.sqrt(L))\<close>: the negative power of \<open>n = 0\<close> raises
  \<^verbatim>\<open>ZeroDivisionError\<close>; the division is numpy's.
\<close>

definition bandwidth_h :: "pow_fun \<Rightarrow> nat \<Rightarrow> posreal \<Rightarrow> real \<Rightarrow> error + npfloat" where
  "bandwidth_h pw n L C =
     (if n = 0 then Inl ZeroDivisionError
      else Inr (np_true_divide C (pw (real n) (- 1 / 3) * sqrt (pos_value L))))"

text \<open>
  \<^verbatim>\<open>np.max(a, axis)\<close> for a number \<open>a\<close>, as line 309 calls it with \<^verbatim>\<open>len(E_2)\<close> in the place
  of the axis: a number has no axes, and numpy accepts only the axis 0 (or -1) for it.
\<close>

definition np_max_axis :: "nat \<Rightarrow> nat \<Rightarrow> error + nat" where
  "np_max_axis a axis = (if axis = 0 then Inr a else Inl AxisError)"

text \<open>The cell test of lines 306, 307 and 316.\<close>

definition in_cell :: "real \<times> real \<Rightarrow> real \<Rightarrow> real \<Rightarrow> real \<Rightarrow> real \<Rightarrow> bool" where
  "in_cell xy a_1 a_2 b_1 b_2 =
     (fst xy \<ge> a_1 \<and> fst xy < a_2 \<and> snd xy \<ge> b_1 \<and> snd xy < b_2)"

text \<open>
  The count matrices \<^verbatim>\<open>N_1\<close>, \<^verbatim>\<open>N_2\<close> of lines 295 to 307, over the sample indices \<open>ks\<close>:
  entry \<open>(c1, c2)\<close> counts the samples in the cell of the offsets \<open>E_1[c1]\<close>, \<open>E_2[c2]\<close>.
\<close>

definition count_matrix ::
  "(real \<times> real) list \<Rightarrow> nat list \<Rightarrow> real \<Rightarrow> real \<Rightarrow> int list \<Rightarrow> real \<Rightarrow> real \<Rightarrow> int list
     \<Rightarrow> real ndarray" where
  "count_matrix X ks r_1 h_1 E_1 r_2 h_2 E_2 =
     NDArray (length E_1) (length E_2) (\<lambda>c1 c2.
       real (length (filter (\<lambda>k.
         in_cell (X ! k)
           (r_1 + real_of_int (E_1 ! c1) * h_1) (r_1 + (real_of_int (E_1 ! c1) + 1) * h_1)
           (r_2 + real_of_int (E_2 ! c2) * h_2) (r_2 + (real_of_int (E_2 ! c2) + 1) * h_2)) ks)))"

type_synonym density2 = "real \<Rightarrow> real \<Rightarrow> error + npfloat"

text \<open>The closure \<^verbatim>\<open>f_1\<close> returned by the general branch of \<^verbatim>\<open>our_algo_2\<close>, lines 312 to 318.\<close>

definition f_1_bivariate ::
  "real \<Rightarrow> real \<Rightarrow> int list \<Rightarrow> real \<Rightarrow> real \<Rightarrow> int list \<Rightarrow> npfloat ndarray \<Rightarrow> density2" where
  "f_1_bivariate r_1 h_1 E_1 r_2 h_2 E_2 P x y =
     (case for_loop (\<lambda>ci s. case ci of (c1, i) \<Rightarrow>
               for_loop (\<lambda>cj s. case cj of (c2, j) \<Rightarrow>
                   if in_cell (x, y)
                        (r_1 + real_of_int i * h_1) (r_1 + (real_of_int i + 1) * h_1)
                        (r_2 + real_of_int j * h_2) (r_2 + (real_of_int j + 1) * h_2)
                   then (if c1 < nrows P \<and> c2 < ncols P
                         then Inr (np_add s (entry P c1 c2)) else Inl IndexError)
                   else Inr s)
                 (enumerate 0 E_2) s)
             (enumerate 0 E_1) (Fin 0) of
        Inl e \<Rightarrow> Inl e
      | Inr s \<Rightarrow> Inr (np_multiply (np_true_divide 1 (h_1 * h_2)) s))"

text \<open>
  A degenerate axis (lines 272 to 274 and 282 to 284): the univariate estimator on the
  other coordinate of \<^verbatim>\<open>X[int(n/2+1):]\<close>, scaled by \<open>1/(R - r)\<close> inside \<open>[r, R]\<close>.
\<close>

definition delegate ::
  "pow_fun \<Rightarrow> nat \<Rightarrow> real list \<Rightarrow> posreal \<Rightarrow> real \<Rightarrow> real \<Rightarrow> error + density1" where
  "delegate pw n Z L r R =
     (case our_algo_3 pw n Z L of
        Inl e \<Rightarrow> Inl e
      | Inr g \<Rightarrow>
          Inr (\<lambda>v. case g v of
                 Inl e \<Rightarrow> Inl e
               | Inr gv \<Rightarrow> Inr (np_multiply (np_true_divide 1 (R - r)) gv)))"

text \<open>The general branch, lines 287 to 320, with the globals as \<^verbatim>\<open>our_algo\<close> finds them.\<close>

definition general_branch ::
  "pow_fun \<Rightarrow> svd_fun \<Rightarrow> globals \<Rightarrow> nat \<Rightarrow> (real \<times> real) list \<Rightarrow> real \<Rightarrow> posreal \<Rightarrow> real
     \<Rightarrow> real \<Rightarrow> real \<Rightarrow> real \<Rightarrow> real \<Rightarrow> real \<Rightarrow> error + density2" where
  "general_branch pw svd genv n X alpha L Cbar cstar r_1 R_1 r_2 R_2 =
     (case bin_width pw (R_1 - r_1) n L of
        Inl e \<Rightarrow> Inl e
      | Inr h_1 \<Rightarrow>
     (case bin_width pw (R_2 - r_2) n L of
        Inl e \<Rightarrow> Inl e
      | Inr h_2 \<Rightarrow>
     (case grid_offsets r_1 h_1 of
        Inl e \<Rightarrow> Inl e
      | Inr E_1 \<Rightarrow>
     (case grid_offsets r_2 h_2 of
        Inl e \<Rightarrow> Inl e
      | Inr E_2 \<Rightarrow>
        let ks1 = [n div 2 + 1..<3 * n div 4]; ks2 = [3 * n div 4..<n] in
        if E_1 \<noteq> [] \<and> E_2 \<noteq> [] \<and> \<not> list_all (\<lambda>k. k < length X) (ks1 @ ks2)
        then Inl IndexError
        else
          let N_1 = count_matrix X ks1 r_1 h_1 E_1 r_2 h_2 E_2;
              N_2 = count_matrix X ks2 r_1 h_1 E_1 r_2 h_2 E_2
          in
          (case np_max_axis (length E_1) (length E_2) of
             Inl e \<Rightarrow> Inl e
           | Inr d \<Rightarrow>
             (case our_algo svd genv (int (n div 2)) (int d) N_1 N_2 alpha cstar Cbar of
                Inl e \<Rightarrow> Inl e
              | Inr P \<Rightarrow> Inr (f_1_bivariate r_1 h_1 E_1 r_2 h_2 E_2 P)))))))"

text \<open>Lines 267 to 320 of \<^verbatim>\<open>our_algo_2\<close>, after the assignment of the global \<^verbatim>\<open>h\<close>.\<close>

definition our_algo_2_body ::
  "pow_fun \<Rightarrow> svd_fun \<Rightarrow> globals \<Rightarrow> nat \<Rightarrow> (real \<times> real) list \<Rightarrow> real \<Rightarrow> posreal \<Rightarrow> real
     \<Rightarrow> real \<Rightarrow> error + density2" where
  "our_algo_2_body pw svd genv n X alpha L Cbar cstar =
     (let cal = take (n div 2) X; rest = drop (n div 2 + 1) X in
      case np_min (map fst cal) of
        Inl e \<Rightarrow> Inl e
      | Inr r_1 \<Rightarrow>
     (case np_max (map fst cal) of
        Inl e \<Rightarrow> Inl e
      | Inr R_1 \<Rightarrow>
        if narrow_test pw (R_1 - r_1) (pw (real n) (1 / 3)) L
        then
          (case delegate pw n (map snd rest) L r_1 R_1 of
             Inl e \<Rightarrow> Inl e
           | Inr g \<Rightarrow> Inr (\<lambda>x y. if x \<ge> r_1 \<and> x \<le> R_1 then g y else Inr (Fin 0)))
        else
     (case np_min (map snd cal) of
        Inl e \<Rightarrow> Inl e
      | Inr r_2 \<Rightarrow>
     (case np_max (map snd cal) of
        Inl e \<Rightarrow> Inl e
      | Inr R_2 \<Rightarrow>
        if narrow_test pw (R_2 - r_2) (pw (real n) (1 / 3)) L
        then
          (case delegate pw n (map fst rest) L r_2 R_2 of
             Inl e \<Rightarrow> Inl e
           | Inr g \<Rightarrow> Inr (\<lambda>x y. if y \<ge> r_2 \<and> y \<le> R_2 then g x else Inr (Fin 0)))
        else general_branch pw svd genv n X alpha L Cbar cstar r_1 R_1 r_2 R_2))))"

text \<open>
  \<^verbatim>\<open>our_algo_2(n,X,alpha,L,C,Cbar,cstar)\<close>: the globals after the call (the statement
  \<^verbatim>\<open>global h\<close>), and the returned density or the exception.
\<close>

definition our_algo_2 ::
  "pow_fun \<Rightarrow> svd_fun \<Rightarrow> globals \<Rightarrow> nat \<Rightarrow> (real \<times> real) list \<Rightarrow> real \<Rightarrow> posreal \<Rightarrow> real
     \<Rightarrow> real \<Rightarrow> real \<Rightarrow> globals \<times> (error + density2)" where
  "our_algo_2 pw svd genv n X alpha L C Cbar cstar =
     (case bandwidth_h pw n L C of
        Inl e \<Rightarrow> (genv, Inl e)
      | Inr h \<Rightarrow>
          let genv' = genv(''h'' \<mapsto> PyFloat h)
          in (genv', our_algo_2_body pw svd genv' n X alpha L Cbar cstar))"

text \<open>Calling the density a univariate estimator returned, if it returned one.\<close>

definition call_density1 :: "error + density1 \<Rightarrow> real \<Rightarrow> error + npfloat" where
  "call_density1 res x = (case res of Inl e \<Rightarrow> Inl e | Inr f \<Rightarrow> f x)"

section \<open>Specification predicates\<close>

text \<open>
  Block \<open>(I, J)\<close> of \<open>res\<close> holds the values \<open>BV\<close> computed for it: \<open>res[I[a], J[b]] = V[a, b]\<close>.
\<close>

definition block_written ::
  "error + (nat \<Rightarrow> nat \<Rightarrow> real) \<Rightarrow> nat list \<Rightarrow> nat list \<Rightarrow> real ndarray \<Rightarrow> bool" where
  "block_written BV I J res =
     (\<exists>V. BV = Inr V \<and> (\<forall>a<length I. \<forall>b<length J. entry res (I ! a) (J ! b) = V a b))"

text \<open>
  The documented shapes of \<^verbatim>\<open>np.linalg.svd(M)\<close> for an \<open>m \<times> n\<close> matrix: \<open>U\<close> is \<open>m \<times> m\<close>,
  \<open>s\<close> has \<open>min m n\<close> entries, \<open>Vh\<close> is \<open>n \<times> n\<close>.
\<close>

definition svd_shapes :: "svd_fun \<Rightarrow> bool" where
  "svd_shapes svd =
     (\<forall>M. case svd M of (U, s, Vh) \<Rightarrow>
        nrows U = nrows M \<and> ncols U = nrows M \<and> length s = min (nrows M) (ncols M)
        \<and> nrows Vh = ncols M \<and> ncols Vh = ncols M)"

section \<open>Example inputs\<close>

text \<open>Histograms, globals and samples at which the theorems below are instantiated.\<close>

definition Y_quarters :: "real ndarray" where
  "Y_quarters = NDArray 2 2 (\<lambda>i j. [[1/4, 1/4], [1/2, 0]] ! i ! j)"

definition Y_uniform :: "real ndarray" where
  "Y_uniform = NDArray 2 2 (\<lambda>i j. 1/4)"

definition Y_diag :: "real ndarray" where
  "Y_diag = NDArray 2 2 (\<lambda>i j. if i = j then 1/2 else 0)"

definition globals_2x2 :: globals where
  "globals_2x2 = [''d1'' \<mapsto> PyInt 2, ''d2'' \<mapsto> PyInt 2]"

text \<open>Samples for \<^verbatim>\<open>our_algo_3\<close>: a wide, a narrow and a constant calibration half.\<close>

definition Z_bins :: "real list" where
  "Z_bins = [0, 1, 0, 1, 9, 1/10, 3/10, 3/10]"

definition Z_narrow :: "real list" where
  "Z_narrow = [0, 1/10000, 1/20000, 0, 1/2, 1/2, 1/2, 1/2]"

definition Z_point :: "real list" where
  "Z_point = [1/2, 1/2, 1/2, 1/2, 0, 1, 0, 1]"

text \<open>Sixty-four samples whose calibration half has the range \<open>1/4\<close>.\<close>

definition Z_64 :: "real list" where
  "Z_64 = 0 # 1/4 # replicate 62 (1/8)"

text \<open>Samples for \<^verbatim>\<open>our_algo_2\<close> whose calibration ranges are 2 on both axes.\<close>

definition X_grid :: "(real \<times> real) list" where
  "X_grid = [(0, 0), (2, 2), (1, 1), (1, 1), (9, 9), (1/4, 1/4), (1/4, 1/4), (1/4, 1/4)]"

text \<open>
  The values of Python's float power at the arguments the examples use. They are exact
  where the exact power is a float (\<^verbatim>\<open>8**(1/3) = 2.0\<close>, \<^verbatim>\<open>8**(-1/3) = 0.5\<close>,
  \<^verbatim>\<open>4**(1/2) = 2.0\<close>, \<^verbatim>\<open>4**(-1/2) = 0.5\<close>, \<^verbatim>\<open>64**(-1/3) = 0.25\<close>, \<^verbatim>\<open>1**y = 1.0\<close>), and
  \<^verbatim>\<open>64**(1/3) = 3.9999999999999996\<close>, the float next below 4, which is \<open>4 - 2\<^sup>-\<^sup>5\<^sup>1\<close>. At other
  arguments the exact power stands in; no example uses them.
\<close>

definition float_pow :: pow_fun where
  "float_pow x y = (if x = 64 \<and> y = 1 / 3 then 4 - 2 powi (- 51) else x powr y)"

text \<open>
  A stand-in for \<^verbatim>\<open>np.linalg.svd\<close> in the examples: the decomposition of a matrix that is
  already diagonal with a non-negative, non-increasing diagonal, where \<open>U\<close> and \<open>Vh\<close> are
  identity matrices and \<open>s\<close> is the diagonal.
\<close>

definition svd_diag :: svd_fun where
  "svd_diag M =
     (NDArray (nrows M) (nrows M) (\<lambda>i j. if i = j then 1 else 0),
      map (\<lambda>k. entry M k k) [0..<min (nrows M) (ncols M)],
      NDArray (ncols M) (ncols M) (\<lambda>i j. if i = j then 1 else 0))"


section \<open>Auxiliary facts\<close>

lemma pow2_neg: "(2::real) powi (- int t) = (1/2) ^ t"
  by (simp add: power_int_minus power_one_over inverse_eq_divide)

lemma pow2_neg1: "(2::real) powi (- int t - 1) = (1/2) ^ Suc t"
proof -
  have "- int t - 1 = - int (Suc t)" by simp
  then have "(2::real) powi (- int t - 1) = 2 powi (- int (Suc t))" by (rule arg_cong)
  then show ?thesis unfolding pow2_neg .
qed

lemma set_np_argwhere: "set (np_argwhere P xs) = {i. i < length xs \<and> P (xs ! i)}"
  by (auto simp: np_argwhere_def)

lemma distinct_np_argwhere: "distinct (np_argwhere P xs)"
  by (simp add: np_argwhere_def)

lemma sorted_np_argwhere: "sorted (np_argwhere P xs)"
  by (simp add: np_argwhere_def sorted_wrt_filter)

lemma in_bucket:
  "i \<in> set (bucket T t p) \<longleftrightarrow>
     i < length p \<and> p ! i \<le> (1/2) ^ t \<and> (t < T \<longrightarrow> (1/2) ^ Suc t < p ! i)"
  by (simp only: bucket_def set_np_argwhere pow2_neg pow2_neg1 mem_Collect_eq split: if_split) blast

lemma band_exists:
  fixes x :: real
  shows "(1/2) ^ T < x \<Longrightarrow> x \<le> 1 \<Longrightarrow> \<exists>t<T. (1/2) ^ Suc t < x \<and> x \<le> (1/2) ^ t"
proof (induction T)
  case 0
  then show ?case by simp
next
  case (Suc T)
  show ?case
  proof (cases "(1/2) ^ T < x")
    case True
    with Suc obtain t where "t < T" "(1/2) ^ Suc t < x" "x \<le> (1/2) ^ t" by blast
    then show ?thesis using less_Suc_eq by blast
  next
    case False
    with Suc.prems show ?thesis by (intro exI[of _ T]) auto
  qed
qed

lemma band_disjoint:
  fixes x :: real
  assumes "t < t'" "(1/2) ^ Suc t < x" "x \<le> (1/2) ^ t'"
  shows False
proof -
  have "((1/2)::real) ^ t' \<le> (1/2) ^ Suc t"
    using assms(1) by (intro power_decreasing) auto
  with assms show False by linarith
qed

lemma bucket_unique:
  assumes "t \<le> T" "t' \<le> T" "i \<in> set (bucket T t p)" "i \<in> set (bucket T t' p)"
  shows "t = t'"
proof (rule ccontr)
  assume "t \<noteq> t'"
  then consider "t < t'" | "t' < t" by linarith
  then show False
  proof cases
    case 1
    then have "t < T" using assms by simp
    with assms 1 show False using band_disjoint[of t t' "p ! i"] by (auto simp: in_bucket)
  next
    case 2
    then have "t' < T" using assms by simp
    with assms 2 show False using band_disjoint[of t' t "p ! i"] by (auto simp: in_bucket)
  qed
qed

lemma bucket_exists:
  assumes "i < length p" "p ! i \<le> 1"
  shows "\<exists>t\<le>T. i \<in> set (bucket T t p)"
proof (cases "p ! i \<le> (1/2) ^ T")
  case True
  with assms show ?thesis by (intro exI[of _ T]) (simp add: in_bucket)
next
  case False
  then obtain t where "t < T" "(1/2) ^ Suc t < p ! i" "p ! i \<le> (1/2) ^ t"
    using band_exists[of T "p ! i"] assms by auto
  with assms show ?thesis by (intro exI[of _ t]) (simp add: in_bucket)
qed

lemma level_count_1: "level_count 1 = Inr 0" by (simp add: level_count_def)
lemma level_count_2: "level_count 2 = Inr 1" by (simp add: level_count_def)

lemma set_entry_simps [simp]:
  "nrows (set_entry A r c v) = nrows A"
  "ncols (set_entry A r c v) = ncols A"
  "entry (set_entry A r c v) r' c' = (if r' = r \<and> c' = c then v else entry A r' c')"
  by (simp_all add: set_entry_def)

lemma row_loop:
  fixes res :: "real ndarray" and V :: "nat \<Rightarrow> real" and r :: nat
  assumes "distinct J" "m \<le> length J"
  shows "nrows (fold (\<lambda>j res. set_entry res r (J ! j) (V j)) [0..<m] res) = nrows res
       \<and> ncols (fold (\<lambda>j res. set_entry res r (J ! j) (V j)) [0..<m] res) = ncols res
       \<and> (\<forall>b<m. entry (fold (\<lambda>j res. set_entry res r (J ! j) (V j)) [0..<m] res) r (J ! b) = V b)
       \<and> (\<forall>r' c. r' \<noteq> r \<or> c \<notin> set (take m J) \<longrightarrow>
             entry (fold (\<lambda>j res. set_entry res r (J ! j) (V j)) [0..<m] res) r' c = entry res r' c)"
  using assms(2)
proof (induction m)
  case 0
  then show ?case by simp
next
  case (Suc m)
  let ?B = "fold (\<lambda>j res. set_entry res r (J ! j) (V j)) [0..<m] res"
  from Suc have IH: "nrows ?B = nrows res" "ncols ?B = ncols res"
    "\<And>b. b < m \<Longrightarrow> entry ?B r (J ! b) = V b"
    "\<And>r' c. r' \<noteq> r \<or> c \<notin> set (take m J) \<Longrightarrow> entry ?B r' c = entry res r' c"
    by auto
  have m: "m < length J" using Suc.prems by simp
  have neq: "\<And>b. b < m \<Longrightarrow> J ! b \<noteq> J ! m"
    using assms(1) m by (simp add: nth_eq_iff_index_eq)
  have tk: "set (take (Suc m) J) = insert (J ! m) (set (take m J))"
    using m by (simp add: take_Suc_conv_app_nth)
  show ?case
    using IH neq by (auto simp: tk less_Suc_eq)
qed

lemma assign_block_props:
  assumes "distinct I" "distinct J"
  shows "nrows (assign_block res I J V) = nrows res"
    and "ncols (assign_block res I J V) = ncols res"
    and "\<And>a b. a < length I \<Longrightarrow> b < length J \<Longrightarrow> entry (assign_block res I J V) (I ! a) (J ! b) = V a b"
    and "\<And>r c. r \<notin> set I \<or> c \<notin> set J \<Longrightarrow> entry (assign_block res I J V) r c = entry res r c"
proof -
  define F where "F = (\<lambda>m. fold (\<lambda>i res. fold (\<lambda>j res. set_entry res (I ! i) (J ! j) (V i j)) [0..<length J] res) [0..<m] res)"
  have main: "m \<le> length I \<Longrightarrow> nrows (F m) = nrows res \<and> ncols (F m) = ncols res
       \<and> (\<forall>a<m. \<forall>b<length J. entry (F m) (I ! a) (J ! b) = V a b)
       \<and> (\<forall>r c. r \<notin> set (take m I) \<or> c \<notin> set J \<longrightarrow> entry (F m) r c = entry res r c)" for m
  proof (induction m)
    case 0
    then show ?case by (simp add: F_def)
  next
    case (Suc m)
    have m: "m < length I" using Suc.prems by simp
    have Fs: "F (Suc m) = fold (\<lambda>j res. set_entry res (I ! m) (J ! j) (V m j)) [0..<length J] (F m)"
      by (simp add: F_def)
    note R = row_loop[OF assms(2) order_refl, of "I ! m" "V m" "F m", folded Fs]
    from Suc m have IH: "nrows (F m) = nrows res" "ncols (F m) = ncols res"
      "\<And>a b. a < m \<Longrightarrow> b < length J \<Longrightarrow> entry (F m) (I ! a) (J ! b) = V a b"
      "\<And>r c. r \<notin> set (take m I) \<or> c \<notin> set J \<Longrightarrow> entry (F m) r c = entry res r c"
      by auto
    have neq: "\<And>a. a < m \<Longrightarrow> I ! a \<noteq> I ! m"
      using assms(1) m by (simp add: nth_eq_iff_index_eq)
    have tk: "set (take (Suc m) I) = insert (I ! m) (set (take m I))"
      using m by (simp add: take_Suc_conv_app_nth)
    have 1: "nrows (F (Suc m)) = nrows res" "ncols (F (Suc m)) = ncols res"
      using R IH by auto
    have 2: "entry (F (Suc m)) (I ! a) (J ! b) = V a b" if "a < Suc m" "b < length J" for a b
    proof (cases "a = m")
      case True
      then show ?thesis using R that by auto
    next
      case False
      then have "a < m" using that by simp
      then show ?thesis using R IH(3)[of a b] neq[of a] that by auto
    qed
    have 3: "entry (F (Suc m)) r c = entry res r c" if "r \<notin> set (take (Suc m) I) \<or> c \<notin> set J" for r c
    proof -
      have "entry (F (Suc m)) r c = entry (F m) r c"
        using R that by (auto simp: tk)
      then show ?thesis using IH(4)[of r c] that by (auto simp: tk)
    qed
    show ?case using 1 2 3 by blast
  qed
  have "assign_block res I J V = F (length I)"
    by (simp add: assign_block_def F_def)
  with main[of "length I"]
  show "nrows (assign_block res I J V) = nrows res"
    and "ncols (assign_block res I J V) = ncols res"
    and "\<And>a b. a < length I \<Longrightarrow> b < length J \<Longrightarrow> entry (assign_block res I J V) (I ! a) (J ! b) = V a b"
    and "\<And>r c. r \<notin> set I \<or> c \<notin> set J \<Longrightarrow> entry (assign_block res I J V) r c = entry res r c"
    by auto
qed

lemma for_loop_Cons_Inr:
  assumes "for_loop body (x # xs) st = Inr st'"
  obtains st1 where "body x st = Inr st1" "for_loop body xs st1 = Inr st'"
  using assms by (auto split: sum.splits)

lemma block_step_Inr:
  assumes "block_step svd n d Y2 alpha cstar Cbar I J t u res0 = Inr res1"
  obtains V where "block_values svd n d Y2 alpha cstar Cbar I J t u = Inr V"
    and "res1 = assign_block res0 I J V"
  using assms by (auto simp: block_step_def split: sum.splits if_splits)

lemma for_loop_frames:
  fixes body :: "'a \<Rightarrow> real ndarray \<Rightarrow> error + real ndarray"
    and foot :: "'a \<Rightarrow> (nat \<times> nat) set"
  assumes run: "for_loop body xs st0 = Inr st"
    and dist: "distinct xs"
    and step: "\<And>x s s'. x \<in> set xs \<Longrightarrow> body x s = Inr s' \<Longrightarrow>
        nrows s' = nrows s \<and> ncols s' = ncols s \<and> post x s'
        \<and> (\<forall>r c. (r, c) \<notin> foot x \<longrightarrow> entry s' r c = entry s r c)"
    and stable: "\<And>x s s'. x \<in> set xs \<Longrightarrow> post x s \<Longrightarrow>
        (\<forall>r c. (r, c) \<in> foot x \<longrightarrow> entry s' r c = entry s r c) \<Longrightarrow> post x s'"
    and disj: "\<And>x y. x \<in> set xs \<Longrightarrow> y \<in> set xs \<Longrightarrow> x \<noteq> y \<Longrightarrow> foot x \<inter> foot y = {}"
  shows "nrows st = nrows st0 \<and> ncols st = ncols st0
       \<and> (\<forall>x\<in>set xs. post x st)
       \<and> (\<forall>r c. (\<forall>x\<in>set xs. (r, c) \<notin> foot x) \<longrightarrow> entry st r c = entry st0 r c)"
  using run dist step stable disj
proof (induction xs arbitrary: st0)
  case Nil
  then show ?case by simp
next
  case (Cons x xs)
  from Cons.prems(1) obtain s1 where s1: "body x st0 = Inr s1" "for_loop body xs s1 = Inr st"
    by (rule for_loop_Cons_Inr)
  have S: "nrows s1 = nrows st0" "ncols s1 = ncols st0" "post x s1"
    "\<And>r c. (r, c) \<notin> foot x \<Longrightarrow> entry s1 r c = entry st0 r c"
    using Cons.prems(3)[of x st0 s1] s1(1) by auto
  have IH: "nrows st = nrows s1 \<and> ncols st = ncols s1
       \<and> (\<forall>y\<in>set xs. post y st)
       \<and> (\<forall>r c. (\<forall>y\<in>set xs. (r, c) \<notin> foot y) \<longrightarrow> entry st r c = entry s1 r c)"
  proof (rule Cons.IH[OF s1(2)])
    show "distinct xs" using Cons.prems(2) by simp
  next
    fix y s s' assume "y \<in> set xs" "body y s = Inr s'"
    then show "nrows s' = nrows s \<and> ncols s' = ncols s \<and> post y s'
        \<and> (\<forall>r c. (r, c) \<notin> foot y \<longrightarrow> entry s' r c = entry s r c)"
      using Cons.prems(3)[of y s s'] by simp
  next
    fix y s s' assume "y \<in> set xs" "post y s"
      "\<forall>r c. (r, c) \<in> foot y \<longrightarrow> entry s' r c = entry s r c"
    then show "post y s'" using Cons.prems(4)[of y s s'] by simp
  next
    fix y z assume "y \<in> set xs" "z \<in> set xs" "y \<noteq> z"
    then show "foot y \<inter> foot z = {}" using Cons.prems(5)[of y z] by simp
  qed
  have x_notin: "x \<notin> set xs" using Cons.prems(2) by simp
  have keep: "entry st r c = entry s1 r c" if "(r, c) \<in> foot x" for r c
  proof -
    have "\<forall>y\<in>set xs. (r, c) \<notin> foot y"
    proof
      fix y assume y: "y \<in> set xs"
      then have "foot x \<inter> foot y = {}" using Cons.prems(5)[of x y] x_notin by auto
      with that show "(r, c) \<notin> foot y" by blast
    qed
    with IH show ?thesis by blast
  qed
  have px: "post x st"
    using Cons.prems(4)[of x s1 st] S(3) keep by simp
  have frame: "entry st r c = entry st0 r c" if "\<forall>y\<in>set (x # xs). (r, c) \<notin> foot y" for r c
  proof -
    have "entry st r c = entry s1 r c" using IH that by simp
    also have "\<dots> = entry st0 r c" using S(4) that by simp
    finally show ?thesis .
  qed
  show ?case using IH S px frame by auto
qed

lemma distinct_bucket: "distinct (bucket T t p)"
  by (simp add: bucket_def distinct_np_argwhere)

lemma bucket_disjoint:
  assumes "t \<le> T" "t' \<le> T" "t \<noteq> t'"
  shows "set (bucket T t p) \<inter> set (bucket T t' p) = {}"
  using bucket_unique[OF assms(1,2)] assms(3) by blast

lemma block_step_effect:
  assumes "block_step svd n d Y2 alpha cstar Cbar I J t u s = Inr s'"
    and "distinct I" "distinct J"
  shows "nrows s' = nrows s \<and> ncols s' = ncols s
    \<and> block_written (block_values svd n d Y2 alpha cstar Cbar I J t u) I J s'
    \<and> (\<forall>r c. (r, c) \<notin> set I \<times> set J \<longrightarrow> entry s' r c = entry s r c)"
proof -
  from assms(1) obtain V where V: "block_values svd n d Y2 alpha cstar Cbar I J t u = Inr V"
    "s' = assign_block s I J V" by (rule block_step_Inr)
  note P = assign_block_props[OF assms(2,3), where res = s and V = V]
  show ?thesis
    unfolding block_written_def V(1) using P unfolding V(2) by auto
qed

lemma block_written_stable:
  assumes "block_written BV I J s"
    and "\<forall>r c. (r, c) \<in> set I \<times> set J \<longrightarrow> entry s' r c = entry s r c"
  shows "block_written BV I J s'"
  using assms unfolding block_written_def by (metis SigmaI nth_mem)

lemma u_loop_blocks:
  assumes run: "for_loop (\<lambda>u res. let J = bucket T u q in
                   block_step svd n d Y2 alpha cstar Cbar I J t u res) [0..<T + 1] res0 = Inr res"
    and dI: "distinct I"
  shows "nrows res = nrows res0 \<and> ncols res = ncols res0
    \<and> (\<forall>u\<in>set [0..<T + 1].
          block_written (block_values svd n d Y2 alpha cstar Cbar I (bucket T u q) t u) I (bucket T u q) res)
    \<and> (\<forall>r c. (\<forall>u\<in>set [0..<T + 1]. (r, c) \<notin> set I \<times> set (bucket T u q)) \<longrightarrow> entry res r c = entry res0 r c)"
proof (rule for_loop_frames[OF run, where foot = "\<lambda>u. set I \<times> set (bucket T u q)"])
  show "distinct [0..<T + 1]" by simp
next
  fix u s s'
  assume "u \<in> set [0..<T + 1]"
    and "(let J = bucket T u q in block_step svd n d Y2 alpha cstar Cbar I J t u s) = Inr s'"
  then have "block_step svd n d Y2 alpha cstar Cbar I (bucket T u q) t u s = Inr s'" by (simp add: Let_def)
  from block_step_effect[OF this dI distinct_bucket]
  show "nrows s' = nrows s \<and> ncols s' = ncols s
    \<and> block_written (block_values svd n d Y2 alpha cstar Cbar I (bucket T u q) t u) I (bucket T u q) s'
    \<and> (\<forall>r c. (r, c) \<notin> set I \<times> set (bucket T u q) \<longrightarrow> entry s' r c = entry s r c)" .
next
  fix u s s'
  assume "block_written (block_values svd n d Y2 alpha cstar Cbar I (bucket T u q) t u) I (bucket T u q) s"
    and "\<forall>r c. (r, c) \<in> set I \<times> set (bucket T u q) \<longrightarrow> entry s' r c = entry s r c"
  then show "block_written (block_values svd n d Y2 alpha cstar Cbar I (bucket T u q) t u) I (bucket T u q) s'"
    by (rule block_written_stable)
next
  fix u u' :: nat
  assume "u \<in> set [0..<T + 1]" "u' \<in> set [0..<T + 1]" "u \<noteq> u'"
  then have "set (bucket T u q) \<inter> set (bucket T u' q) = {}"
    by (intro bucket_disjoint) auto
  then show "set I \<times> set (bucket T u q) \<inter> set I \<times> set (bucket T u' q) = {}" by blast
qed

lemma fill_blocks_result:
  assumes run: "fill_blocks svd n d Y1 Y2 alpha cstar Cbar T res0 = Inr res"
  shows "nrows res = nrows res0 \<and> ncols res = ncols res0
    \<and> (\<forall>t\<le>T. \<forall>u\<le>T.
          block_written
            (block_values svd n d Y2 alpha cstar Cbar
               (bucket T t (np_sum_axis1 Y1)) (bucket T u (np_sum_axis0 Y1)) t u)
            (bucket T t (np_sum_axis1 Y1)) (bucket T u (np_sum_axis0 Y1)) res)
    \<and> (\<forall>r c. (\<forall>t\<le>T. r \<notin> set (bucket T t (np_sum_axis1 Y1)))
              \<or> (\<forall>u\<le>T. c \<notin> set (bucket T u (np_sum_axis0 Y1)))
            \<longrightarrow> entry res r c = entry res0 r c)"
proof -
  let ?p = "np_sum_axis1 Y1" and ?q = "np_sum_axis0 Y1"
  let ?inner = "\<lambda>t res. let I = bucket T t ?p in
        for_loop (\<lambda>u res. let J = bucket T u ?q in
              block_step svd n d Y2 alpha cstar Cbar I J t u res) [0..<T + 1] res"
  let ?post = "\<lambda>t s. \<forall>u\<le>T. block_written
            (block_values svd n d Y2 alpha cstar Cbar (bucket T t ?p) (bucket T u ?q) t u)
            (bucket T t ?p) (bucket T u ?q) s"
  let ?foot = "\<lambda>t. set (bucket T t ?p) \<times> (\<Union>u\<in>{..T}. set (bucket T u ?q))"
  have run': "for_loop ?inner [0..<T + 1] res0 = Inr res"
    using run by (simp add: fill_blocks_def Let_def)
  have "nrows res = nrows res0 \<and> ncols res = ncols res0
       \<and> (\<forall>t\<in>set [0..<T + 1]. ?post t res)
       \<and> (\<forall>r c. (\<forall>t\<in>set [0..<T + 1]. (r, c) \<notin> ?foot t) \<longrightarrow> entry res r c = entry res0 r c)"
  proof (rule for_loop_frames[OF run', where foot = ?foot and post = ?post])
    show "distinct [0..<T + 1]" by simp
  next
    fix t s s'
    assume "t \<in> set [0..<T + 1]" and "?inner t s = Inr s'"
    then have "for_loop (\<lambda>u res. let J = bucket T u ?q in
              block_step svd n d Y2 alpha cstar Cbar (bucket T t ?p) J t u res) [0..<T + 1] s = Inr s'"
      by (simp add: Let_def)
    from u_loop_blocks[OF this distinct_bucket]
    show "nrows s' = nrows s \<and> ncols s' = ncols s \<and> ?post t s'
        \<and> (\<forall>r c. (r, c) \<notin> ?foot t \<longrightarrow> entry s' r c = entry s r c)"
      by (auto simp: less_Suc_eq_le)
  next
    fix t s s'
    assume "?post t s" and "\<forall>r c. (r, c) \<in> ?foot t \<longrightarrow> entry s' r c = entry s r c"
    then show "?post t s'"
      by (auto intro!: block_written_stable[of _ _ _ s s'])
  next
    fix t t' :: nat
    assume "t \<in> set [0..<T + 1]" "t' \<in> set [0..<T + 1]" "t \<noteq> t'"
    then have "set (bucket T t ?p) \<inter> set (bucket T t' ?p) = {}"
      by (intro bucket_disjoint) auto
    then show "?foot t \<inter> ?foot t' = {}" by blast
  qed
  then show ?thesis by (auto simp: less_Suc_eq_le)
qed

lemma for_loop_succeeds:
  assumes "Q st0"
    and "\<And>x s. x \<in> set xs \<Longrightarrow> Q s \<Longrightarrow> \<exists>s'. body x s = Inr s' \<and> Q s'"
  shows "\<exists>st. for_loop body xs st0 = Inr st \<and> Q st"
  using assms
proof (induction xs arbitrary: st0)
  case Nil
  then show ?case by simp
next
  case (Cons x xs)
  from Cons.prems obtain s1 where s1: "body x st0 = Inr s1" "Q s1" by fastforce
  from Cons.IH[OF s1(2)] Cons.prems(2) obtain st where "for_loop body xs s1 = Inr st" "Q st"
    by fastforce
  with s1 show ?case by auto
qed

lemma rank_l_le: "rank_l ta s \<le> length s"
  by (cases ta) (simp_all add: rank_l_def)

lemma reconstruct_shapes:
  assumes "ncols U = m" "nrows U = m" "length s = min m k" "nrows Vh = k" "ncols Vh = k"
    and "l \<le> length s"
  shows "\<exists>H. reconstruct U s Vh l = Inr H \<and> nrows H = m \<and> ncols H = k
     \<and> (\<forall>i j. entry H i j = (\<Sum>x<l. entry U i (bc l x) * s ! (bc l x) * entry Vh x j))"
proof -
  have l: "l \<le> m" "l \<le> k" using assms by simp_all
  then have mins: "min l (ncols U) = l" "min l (length s) = l" "min l (nrows Vh) = l"
    using assms by simp_all
  have mins': "min l m = l" "min l (min m k) = l" "min l k = l" using l by simp_all
  show ?thesis
    using assms(1-5)
    by (simp add: reconstruct_def scale_cols_def Let_def mins' broadcast_dim_def np_dot_def)
qed

lemma block_values_succeeds:
  assumes "svd_shapes svd" "block_in_bounds Y2 I J"
  shows "\<exists>V. block_values svd n d Y2 alpha cstar Cbar I J t u = Inr V"
proof (cases "np_sum (submatrix Y2 I J) < energy_cutoff n d alpha Cbar")
  case True
  then show ?thesis using assms(2) by (simp add: block_values_def)
next
  case False
  obtain U s Vh where usv: "svd (submatrix Y2 I J) = (U, s, Vh)" by (cases "svd (submatrix Y2 I J)")
  with assms(1) have sh: "nrows U = length I" "ncols U = length I"
    "length s = min (length I) (length J)" "nrows Vh = length J" "ncols Vh = length J"
    unfolding svd_shapes_def by (auto simp: submatrix_def dest!: spec[of _ "submatrix Y2 I J"])
  obtain H where H: "reconstruct U s Vh (rank_l (tau n d cstar t u) s) = Inr H"
    "nrows H = length I" "ncols H = length J"
    using reconstruct_shapes[OF sh(2,1,3,4,5) rank_l_le] by blast
  have "block_in_bounds H [0..<length I] [0..<length J]"
    by (simp add: block_in_bounds_def H list_all_iff)
  then show ?thesis using False assms(2) usv H by (simp add: block_values_def)
qed

lemma bucket_lt_length: "i \<in> set (bucket T t p) \<Longrightarrow> i < length p"
  by (simp add: in_bucket)

lemma length_sums [simp]:
  "length (np_sum_axis1 A) = nrows A" "length (np_sum_axis0 A) = ncols A"
  by (simp_all add: np_sum_axis1_def np_sum_axis0_def)

lemma bucket_block_in_bounds:
  assumes "nrows Y1 \<le> nrows A" "ncols Y1 \<le> ncols A"
  shows "block_in_bounds A (bucket T t (np_sum_axis1 Y1)) (bucket T u (np_sum_axis0 Y1))"
  using assms bucket_lt_length[of _ T t "np_sum_axis1 Y1"] bucket_lt_length[of _ T u "np_sum_axis0 Y1"]
  by (fastforce simp: block_in_bounds_def list_all_iff)

lemma block_step_succeeds:
  assumes "svd_shapes svd" "nrows Y1 \<le> nrows Y2" "ncols Y1 \<le> ncols Y2"
    and "nrows Y1 \<le> nrows res" "ncols Y1 \<le> ncols res"
  shows "\<exists>res'. block_step svd n d Y2 alpha cstar Cbar
            (bucket T t (np_sum_axis1 Y1)) (bucket T u (np_sum_axis0 Y1)) t u res = Inr res'
          \<and> nrows res' = nrows res \<and> ncols res' = ncols res"
proof -
  let ?I = "bucket T t (np_sum_axis1 Y1)" and ?J = "bucket T u (np_sum_axis0 Y1)"
  obtain V where V: "block_values svd n d Y2 alpha cstar Cbar ?I ?J t u = Inr V"
    using block_values_succeeds[OF assms(1) bucket_block_in_bounds[OF assms(2,3)]] by blast
  have "block_in_bounds res ?I ?J" by (rule bucket_block_in_bounds[OF assms(4,5)])
  then have "block_step svd n d Y2 alpha cstar Cbar ?I ?J t u res = Inr (assign_block res ?I ?J V)"
    by (simp add: block_step_def V)
  then show ?thesis
    using assign_block_props(1,2)[OF distinct_bucket distinct_bucket, where res = res and V = V]
    by simp
qed

lemma fill_blocks_succeeds:
  assumes "svd_shapes svd" "nrows Y1 \<le> nrows Y2" "ncols Y1 \<le> ncols Y2"
    and "nrows Y1 \<le> nrows res0" "ncols Y1 \<le> ncols res0"
  shows "\<exists>res. fill_blocks svd n d Y1 Y2 alpha cstar Cbar T res0 = Inr res"
proof -
  let ?inv = "\<lambda>s::real ndarray. nrows s = nrows res0 \<and> ncols s = ncols res0"
  have inner: "\<exists>s'. for_loop (\<lambda>u res. block_step svd n d Y2 alpha cstar Cbar
            (bucket T t (np_sum_axis1 Y1)) (bucket T u (np_sum_axis0 Y1)) t u res) [0..<T + 1] s = Inr s'
          \<and> ?inv s'" if "?inv s" for t s
  proof (rule for_loop_succeeds[where Q = ?inv])
    show "?inv s" by (rule that)
  next
    fix u s1 assume "?inv s1"
    then show "\<exists>s'. block_step svd n d Y2 alpha cstar Cbar
            (bucket T t (np_sum_axis1 Y1)) (bucket T u (np_sum_axis0 Y1)) t u s1 = Inr s' \<and> ?inv s'"
      using block_step_succeeds[OF assms(1,2,3), of s1 n d alpha cstar Cbar T t u] assms(4,5) by auto
  qed
  have "\<exists>st. for_loop (\<lambda>t res. for_loop (\<lambda>u res. block_step svd n d Y2 alpha cstar Cbar
            (bucket T t (np_sum_axis1 Y1)) (bucket T u (np_sum_axis0 Y1)) t u res) [0..<T + 1] res)
          [0..<T + 1] res0 = Inr st \<and> ?inv st"
    by (rule for_loop_succeeds[where Q = ?inv]) (use inner in auto)
  then show ?thesis by (auto simp: fill_blocks_def Let_def)
qed

lemma assemble_succeeds:
  assumes "genv ''d1'' = Some (PyInt r)" "genv ''d2'' = Some (PyInt c)"
    and "int (nrows Y1) \<le> r" "int (ncols Y1) \<le> c"
    and "nrows Y1 \<le> nrows Y2" "ncols Y1 \<le> ncols Y2"
    and "0 < d" "svd_shapes svd"
  shows "\<exists>res. assemble svd genv n d Y1 Y2 alpha cstar Cbar = Inr res
            \<and> nrows res = nat r \<and> ncols res = nat c"
proof -
  have a: "alloc_res genv = Inr (np_zeros (nat r) (nat c))"
    using assms(1-4) by (simp add: alloc_res_def)
  obtain T where T: "level_count d = Inr T" using assms(7) by (simp add: level_count_def)
  have "nrows Y1 \<le> nrows (np_zeros (nat r) (nat c))" "ncols Y1 \<le> ncols (np_zeros (nat r) (nat c))"
    using assms(3,4) by (simp_all add: np_zeros_def)
  from fill_blocks_succeeds[OF assms(8,5,6) this]
  obtain res where res: "fill_blocks svd n d Y1 Y2 alpha cstar Cbar T (np_zeros (nat r) (nat c)) = Inr res"
    by blast
  from fill_blocks_result[OF res] have "nrows res = nat r" "ncols res = nat c"
    by (simp_all add: np_zeros_def)
  then show ?thesis using a T res by (simp add: assemble_def)
qed

lemma svd_shapes_svd_diag: "svd_shapes svd_diag"
  by (simp add: svd_shapes_def svd_diag_def)

lemma two_ln2_less: "real_of_int 2 * ln (real_of_int 2) < real_of_int 2"
  using ln_2_less_1 by simp

lemma energy_cutoff_2_2: "energy_cutoff 2 2 alpha Cbar = Cbar * alpha"
  by (simp add: energy_cutoff_def)

lemma our_algo_else:
  assumes "\<not> (0 < d \<and> real_of_int n \<le> real_of_int d * ln (real_of_int d))"
  shows "our_algo svd genv n d Y1 Y2 alpha cstar Cbar =
     (case assemble svd genv n d Y1 Y2 alpha cstar Cbar of Inl e \<Rightarrow> Inl e | Inr res \<Rightarrow> Inr (divide_by_sum res))"
  using assms by (auto simp: our_algo_def)

lemma assemble_Inr:
  assumes "assemble svd genv n d Y1 Y2 alpha cstar Cbar = Inr res"
  obtains res0 T where "alloc_res genv = Inr res0" "level_count d = Inr T"
    "fill_blocks svd n d Y1 Y2 alpha cstar Cbar T res0 = Inr res"
  using assms by (auto simp: assemble_def split: sum.splits)

lemma alloc_res_zero: "alloc_res genv = Inr res0 \<Longrightarrow> entry res0 r c = 0"
  by (auto simp: alloc_res_def np_zeros_def split: option.splits pyval.splits if_splits)

lemma block_values_copy:
  assumes "block_values svd n d Y2 alpha cstar Cbar I J t u = Inr V"
    and "np_sum (submatrix Y2 I J) < energy_cutoff n d alpha Cbar"
  shows "V = (\<lambda>i j. entry Y2 (I ! i) (J ! j))"
  using assms by (auto simp: block_values_def split: if_splits)

lemma sums_uniform: "np_sum_axis1 Y_uniform = [1/2, 1/2]" "np_sum_axis0 Y_uniform = [1/2, 1/2]"
  by (simp_all add: np_sum_axis1_def np_sum_axis0_def Y_uniform_def upt_rec lessThan_Suc numeral_2_eq_2)

lemma bucket_half_1: "bucket 1 1 [1/2, 1/2] = [0, 1]"
  by (simp add: bucket_def np_argwhere_def upt_rec)

lemma bucket_half_0: "bucket 1 0 [1/2, 1/2] = []"
  by (simp add: bucket_def np_argwhere_def upt_rec)

lemma assemble_zero:
  assumes "assemble svd genv n d Y1 Y2 alpha cstar Cbar = Inr res"
    and "\<And>i j. entry Y2 i j = 0" and "0 < energy_cutoff n d alpha Cbar"
  shows "entry res r c = 0"
proof -
  let ?p = "np_sum_axis1 Y1" and ?q = "np_sum_axis0 Y1"
  from assms(1) obtain res0 T where r: "alloc_res genv = Inr res0" "level_count d = Inr T"
    "fill_blocks svd n d Y1 Y2 alpha cstar Cbar T res0 = Inr res" by (rule assemble_Inr)
  note F = fill_blocks_result[OF r(3)]
  show ?thesis
  proof (cases "(\<exists>t\<le>T. r \<in> set (bucket T t ?p)) \<and> (\<exists>u\<le>T. c \<in> set (bucket T u ?q))")
    case True
    then obtain t u where tu: "t \<le> T" "r \<in> set (bucket T t ?p)" "u \<le> T" "c \<in> set (bucket T u ?q)"
      by blast
    let ?I = "bucket T t ?p" and ?J = "bucket T u ?q"
    from F tu have "block_written (block_values svd n d Y2 alpha cstar Cbar ?I ?J t u) ?I ?J res"
      by blast
    then obtain V where V: "block_values svd n d Y2 alpha cstar Cbar ?I ?J t u = Inr V"
      "\<And>a b. a < length ?I \<Longrightarrow> b < length ?J \<Longrightarrow> entry res (?I ! a) (?J ! b) = V a b"
      unfolding block_written_def by blast
    have "np_sum (submatrix Y2 ?I ?J) = 0"
      by (simp add: np_sum_def submatrix_def assms(2))
    with assms(3) have "V = (\<lambda>i j. entry Y2 (?I ! i) (?J ! j))"
      by (intro block_values_copy[OF V(1)]) simp
    then have V0: "V a b = 0" for a b by (simp add: assms(2))
    from tu obtain a b where "a < length ?I" "?I ! a = r" "b < length ?J" "?J ! b = c"
      by (metis in_set_conv_nth)
    with V(2)[of a b] V0 show ?thesis by simp
  next
    case False
    with F have "entry res r c = entry res0 r c" by blast
    then show ?thesis using alloc_res_zero[OF r(1)] by simp
  qed
qed

lemma np_sum_zero: "(\<And>i j. entry A i j = 0) \<Longrightarrow> np_sum A = 0"
  by (simp add: np_sum_def)

lemma tolist_2x2:
  "nrows A = 2 \<Longrightarrow> ncols A = 2 \<Longrightarrow>
     tolist A = [[entry A 0 0, entry A 0 1], [entry A 1 0, entry A 1 1]]"
  by (simp add: tolist_def upt_rec)

lemma assemble_2x2:
  assumes "nrows Y1 = 2" "ncols Y1 = 2" "nrows Y2 = 2" "ncols Y2 = 2"
  shows "\<exists>res. assemble svd_diag globals_2x2 2 2 Y1 Y2 alpha cstar Cbar = Inr res
            \<and> nrows res = 2 \<and> ncols res = 2"
  using assemble_succeeds[of globals_2x2 2 2 Y1 Y2 2 svd_diag 2 alpha cstar Cbar] assms svd_shapes_svd_diag
  by (simp add: globals_2x2_def)

lemma sum_of_quotients:
  fixes f :: "nat \<Rightarrow> nat \<Rightarrow> real"
  assumes "(\<Sum>i<r. \<Sum>j<c. f i j) \<noteq> 0"
  shows "(\<Sum>i<r. \<Sum>j<c. f i j / (\<Sum>i<r. \<Sum>j<c. f i j)) = 1"
proof -
  have "(\<Sum>i<r. \<Sum>j<c. f i j / (\<Sum>i<r. \<Sum>j<c. f i j)) = (\<Sum>i<r. \<Sum>j<c. f i j) / (\<Sum>i<r. \<Sum>j<c. f i j)"
    by (simp flip: sum_divide_distrib)
  then show ?thesis using assms by simp
qed

lemma assemble_copy_entry:
  assumes "assemble svd genv n d Y1 Y2 alpha cstar Cbar = Inr res"
    and "level_count d = Inr T" and "t \<le> T" and "u \<le> T"
    and "np_sum (submatrix Y2 (bucket T t (np_sum_axis1 Y1)) (bucket T u (np_sum_axis0 Y1)))
           < energy_cutoff n d alpha Cbar"
    and "i \<in> set (bucket T t (np_sum_axis1 Y1))" and "j \<in> set (bucket T u (np_sum_axis0 Y1))"
  shows "entry res i j = entry Y2 i j"
proof -
  let ?I = "bucket T t (np_sum_axis1 Y1)" and ?J = "bucket T u (np_sum_axis0 Y1)"
  from assms(1) obtain res0 T' where r: "alloc_res genv = Inr res0" "level_count d = Inr T'"
    "fill_blocks svd n d Y1 Y2 alpha cstar Cbar T' res0 = Inr res" by (rule assemble_Inr)
  with assms(2) have T': "T' = T" by simp
  from fill_blocks_result[OF r(3)[unfolded T']] assms(3,4)
  have "block_written (block_values svd n d Y2 alpha cstar Cbar ?I ?J t u) ?I ?J res" by blast
  then obtain V where V: "block_values svd n d Y2 alpha cstar Cbar ?I ?J t u = Inr V"
    "\<And>a b. a < length ?I \<Longrightarrow> b < length ?J \<Longrightarrow> entry res (?I ! a) (?J ! b) = V a b"
    unfolding block_written_def by blast
  from assms(6,7) obtain a b where ab: "a < length ?I" "?I ! a = i" "b < length ?J" "?J ! b = j"
    by (metis in_set_conv_nth)
  have "V = (\<lambda>i j. entry Y2 (?I ! i) (?J ! j))" by (rule block_values_copy[OF V(1) assms(5)])
  with V(2)[OF ab(1,3)] ab show "entry res i j = entry Y2 i j" by simp
qed


lemma filter_take_sorted:
  fixes s :: "real list"
  assumes "sorted_wrt (\<ge>) s"
  shows "take (length (filter (\<lambda>x. ta \<le> x) s)) s = filter (\<lambda>x. ta \<le> x) s"
  using assms
proof (induction s)
  case Nil
  then show ?case by simp
next
  case (Cons x xs)
  show ?case
  proof (cases "ta \<le> x")
    case True
    with Cons show ?thesis by simp
  next
    case False
    with Cons.prems have "\<forall>y\<in>set xs. \<not> ta \<le> y" by auto
    then have "filter (\<lambda>x. ta \<le> x) xs = []" by (simp add: filter_empty_conv)
    with False show ?thesis by simp
  qed
qed

lemma sample_size_pos:
  assumes "0 < d" "real_of_int d * ln (real_of_int d) < real_of_int n"
  shows "0 < n"
proof -
  have "1 \<le> real_of_int d" using assms(1) by simp
  then have "0 \<le> ln (real_of_int d)" by simp
  then have "0 \<le> real_of_int d * ln (real_of_int d)" using assms(1) by simp
  with assms(2) show ?thesis by simp
qed

lemma tau_Some:
  assumes "0 \<le> cstar" "0 < n"
  shows "tau n d cstar t u
     = Some (ln (real_of_int d) * sqrt (cstar * 2 powi (1 - int (min t u)) / real_of_int n))"
proof -
  have "0 \<le> cstar * 2 powi (1 - int (min t u)) / real_of_int n"
    using assms by (simp add: zero_le_power_int)
  then show ?thesis by (simp add: tau_def Let_def not_less[symmetric] del: not_less)
qed

lemma block_values_svd:
  assumes "block_values svd n d Y2 alpha cstar Cbar I J t u = Inr V"
    and "\<not> np_sum (submatrix Y2 I J) < energy_cutoff n d alpha Cbar"
    and "svd (submatrix Y2 I J) = (U, s, Vh)"
  shows "\<exists>H. reconstruct U s Vh (rank_l (tau n d cstar t u) s) = Inr H \<and> V = entry H"
  using assms by (auto simp: block_values_def split: if_splits sum.splits)

lemma bc_below: "x < l \<Longrightarrow> bc l x = x"
  by (auto simp: bc_def)

lemma reconstruct_entries:
  assumes "reconstruct U s Vh l = Inr H"
    and "ncols U = m" "nrows U = m" "length s = min m k" "nrows Vh = k" "ncols Vh = k"
    and "l \<le> length s"
  shows "entry H i j = (\<Sum>x<l. entry U i x * s ! x * entry Vh x j)"
proof -
  from reconstruct_shapes[OF assms(2-7)] assms(1)
  have "entry H i j = (\<Sum>x<l. entry U i (bc l x) * s ! (bc l x) * entry Vh x j)" by auto
  also have "\<dots> = (\<Sum>x<l. entry U i x * s ! x * entry Vh x j)"
    by (rule sum.cong) (simp_all add: bc_below)
  finally show ?thesis .
qed

lemma assemble_block_written:
  assumes "assemble svd genv n d Y1 Y2 alpha cstar Cbar = Inr res"
    and "level_count d = Inr T" and "t \<le> T" and "u \<le> T"
  shows "block_written
            (block_values svd n d Y2 alpha cstar Cbar
               (bucket T t (np_sum_axis1 Y1)) (bucket T u (np_sum_axis0 Y1)) t u)
            (bucket T t (np_sum_axis1 Y1)) (bucket T u (np_sum_axis0 Y1)) res"
proof -
  from assms(1) obtain res0 T' where r: "alloc_res genv = Inr res0" "level_count d = Inr T'"
    "fill_blocks svd n d Y1 Y2 alpha cstar Cbar T' res0 = Inr res" by (rule assemble_Inr)
  with assms(2) have T': "T' = T" by simp
  from fill_blocks_result[OF r(3)[unfolded T']] assms(3,4) show ?thesis by blast
qed


lemma half_less_ln2: "1/2 < ln (2::real)"
proof -
  have "exp (1/2 :: real) * exp (1/2) = exp 1" by (simp flip: exp_add)
  moreover have "exp (1::real) \<le> 3" by (rule exp_le)
  ultimately have "exp (1/2 :: real) * exp (1/2) < 2 * 2" by simp
  then have "exp (1/2 :: real) < 2"
  proof (rule contrapos_pp)
    assume "\<not> exp (1/2 :: real) < 2"
    then have "2 \<le> exp (1/2 :: real)" by simp
    then have "2 * 2 \<le> exp (1/2 :: real) * exp (1/2)" by (intro mult_mono) simp_all
    then show "\<not> exp (1/2 :: real) * exp (1/2) < 2 * 2" by simp
  qed
  then have "ln (exp (1/2 :: real)) < ln 2" by (subst ln_less_cancel_iff) simp_all
  then show ?thesis by simp
qed



lemma shape_examples [simp]:
  "nrows Y_uniform = 2" "ncols Y_uniform = 2" "nrows Y_diag = 2" "ncols Y_diag = 2"
  by (simp_all add: Y_uniform_def Y_diag_def)

lemma np_sum_submatrix_2x2:
  "np_sum (submatrix Y [a, b] [c, e]) = entry Y a c + entry Y a e + entry Y b c + entry Y b e"
  by (simp add: np_sum_def submatrix_def lessThan_Suc)

lemma np_sum_diag_block: "np_sum (submatrix Y_diag [0, 1] [0, 1]) = 1"
  unfolding np_sum_submatrix_2x2 by (simp add: Y_diag_def)

lemma svd_diag_block:
  "svd_diag (submatrix Y_diag [0, 1] [0, 1])
     = (NDArray 2 2 (\<lambda>i j. if i = j then 1 else 0), [1/2, 1/2],
        NDArray 2 2 (\<lambda>i j. if i = j then 1 else 0))"
  by (simp add: svd_diag_def submatrix_def Y_diag_def upt_conv_Cons)

lemma bucket_uniform:
  "bucket 1 1 (np_sum_axis1 Y_uniform) = [0, 1]" "bucket 1 1 (np_sum_axis0 Y_uniform) = [0, 1]"
  by (simp_all only: sums_uniform bucket_half_1)


lemma np_sum_shape_2x2:
  "nrows A = 2 \<Longrightarrow> ncols A = 2 \<Longrightarrow> np_sum A = entry A 0 0 + entry A 0 1 + entry A 1 0 + entry A 1 1"
  by (simp add: np_sum_def lessThan_Suc numeral_2_eq_2)

lemma globals_2x2_lookup:
  "globals_2x2 ''d1'' = Some (PyInt 2)" "globals_2x2 ''d2'' = Some (PyInt 2)"
  by (simp_all add: globals_2x2_def)


lemma tau_example_high: "tau 2 2 8 1 1 = Some (ln 2 * 2)"
  by (simp add: tau_def Let_def)

lemma rank_example_high: "rank_l (tau 2 2 8 1 1) [1/2, 1/2] = 0"
  unfolding tau_example_high using half_less_ln2 by (simp add: rank_l_def)

lemma sqrt_sixteenth: "sqrt (1/16) = 1/4"
  by (rule real_sqrt_unique) (simp_all add: power2_eq_square)

lemma tau_example_low: "tau 2 2 (1/8) 1 1 = Some (ln 2 * (1/4))"
  by (simp add: tau_def Let_def sqrt_sixteenth)

lemma rank_example_low: "rank_l (tau 2 2 (1/8) 1 1) [1/2, 1/2] = 2"
  unfolding tau_example_low using ln_2_less_1 by (simp add: rank_l_def)

lemma energy_example: "\<not> np_sum (submatrix Y_diag [0, 1] [0, 1]) < energy_cutoff 2 2 (1/10) (1/2)"
  unfolding np_sum_diag_block energy_cutoff_2_2 by simp


lemma pos_value_Pos: "0 < x \<Longrightarrow> pos_value (Pos x) = x"
  by (simp add: Pos_inverse)

lemma pos_value_1: "pos_value (Pos 1) = 1"
  by (simp add: pos_value_Pos)

lemma pos_value_4: "pos_value (Pos 4) = 4"
  by (simp add: pos_value_Pos)

lemma eight_powr_third: "(8::real) powr (1/3) = 2"
proof -
  have "(8::real) = 2 powr 3" by simp
  then have "(8::real) powr (1/3) = (2 powr 3) powr (1/3)" by simp
  also have "\<dots> = 2 powr (3 * (1/3))" by (rule powr_powr)
  finally show ?thesis by simp
qed

lemma eight_powr_neg_third: "(8::real) powr (- (1 / 3)) = 1/2"
  by (simp add: powr_minus_divide eight_powr_third)

lemma four_powr_half: "(4::real) powr (1/2) = 2"
  by (simp add: powr_half_sqrt)

lemma four_powr_neg_half: "(4::real) powr (- (1 / 2)) = 1/2"
  by (simp add: powr_minus_divide four_powr_half)


lemma float_pow_8:
  "float_pow 8 (1 / 3) = 2"
  "float_pow 8 (- (1 / 3)) = 1/2"
  by (simp_all add: float_pow_def eight_powr_third eight_powr_neg_third)

lemma float_pow_4:
  "float_pow 4 (1 / 2) = 2"
  "float_pow 4 (- (1 / 2)) = 1/2"
  by (simp_all add: float_pow_def four_powr_half four_powr_neg_half)

lemma float_pow_1: "float_pow 1 y = 1"
  by (simp add: float_pow_def)







lemma bin_width_8_4: "bin_width float_pow 1 8 (Pos 4) = Inr (1/4)"
  by (simp add: bin_width_def float_pow_8 float_pow_4 pos_value_4)

lemma bin_width_8_1: "bin_width float_pow 2 8 (Pos 1) = Inr (1/2)"
  by (simp add: bin_width_def float_pow_8 float_pow_1 pos_value_1)

lemma narrow_8_4: "\<not> narrow_test float_pow 1 (float_pow (real 8) (- 1 / 3)) (Pos 4)"
  by (simp add: narrow_test_def float_pow_8 float_pow_4 pos_value_4)

lemma narrow_8_1: "\<not> narrow_test float_pow 2 (float_pow (real 8) (1 / 3)) (Pos 1)"
  by (simp add: narrow_test_def float_pow_8 float_pow_1 pos_value_1)



lemma min_max_bins:
  "np_min (take (length Z_bins div 2) Z_bins) = Inr 0"
  "np_max (take (length Z_bins div 2) Z_bins) = Inr 1"
  by (simp_all add: Z_bins_def)

lemma lengths_Z [simp]:
  "length Z_narrow = 8" "length Z_point = 8" "length Z_bins = 8" "length Z_64 = 64"
  by (simp_all add: Z_narrow_def Z_point_def Z_bins_def Z_64_def)

lemma grid_offsets_bins: "grid_offsets 0 (1/4) = Inr [0, 1, 2]"
  by (simp add: grid_offsets_def upto.simps)

lemma f_1_boundary:
  "f_1_univariate 0 (1/4) [0, 1, 2] [1/10, 3/10, 3/10] (1/4) = Inr (Fin 12)"
  by (simp add: f_1_univariate_def enumerate_eq_zip upt_conv_Cons f_1_step_def Let_def
      np_getitem_def np_true_divide_def)

lemma drop_bins: "drop (length Z_bins div 2 + 1) Z_bins = [1/10, 3/10, 3/10]"
  by (simp add: Z_bins_def)

lemma grid_offsets_half: "grid_offsets 0 (1/2) = Inr [0]"
  by (simp add: grid_offsets_def upto.simps)

lemma general_branch_grid:
  "general_branch float_pow svd genv 8 X_grid alpha (Pos 1) Cbar cstar 0 2 0 2 = Inl AxisError"
  using bin_width_8_1
  by (simp add: general_branch_def grid_offsets_half Let_def list_all_iff X_grid_def np_max_axis_def)

section \<open>The degenerate regime of \<^verbatim>\<open>our_algo\<close>\<close>

text \<open>
  Claim C2. For equal-shaped \<open>Y1\<close> and \<open>Y2\<close> and \<open>n \<le> d \<cdot> ln d\<close> (with \<open>d\<close> positive, so
  that the logarithm is defined), \<^verbatim>\<open>our_algo\<close> returns the matrix of the shape of the inputs
  whose entry \<open>(i, j)\<close> is \<open>(Y1[i,j] + Y2[i,j]) / 2\<close>: no partitioning, thresholding or
  normalisation takes place, and neither the globals nor the SVD routine are consulted.
\<close>

theorem our_algo_degenerate_average:
  assumes "nrows Y1 = nrows Y2" and "ncols Y1 = ncols Y2"
    and "0 < d" and "real_of_int n \<le> real_of_int d * ln (real_of_int d)"
  shows "\<exists>P. our_algo svd genv n d Y1 Y2 alpha cstar Cbar = Inr P
           \<and> nrows P = nrows Y1 \<and> ncols P = ncols Y1
           \<and> (\<forall>i<nrows Y1. \<forall>j<ncols Y1. entry P i j = Fin ((entry Y1 i j + entry Y2 i j) / 2))"
  using assms by (auto simp: our_algo_def np_average_def broadcast_dim_def bc_def)

theorem our_algo_degenerate_average_witness:
  "nrows Y_quarters = nrows Y_uniform \<and> ncols Y_quarters = ncols Y_uniform
    \<and> (0::int) < 2 \<and> real_of_int 1 \<le> real_of_int 2 * ln (real_of_int 2)
    \<and> (\<exists>P. our_algo svd_diag Map.empty 1 2 Y_quarters Y_uniform (1/10) (1/100) (1/2) = Inr P
           \<and> nrows P = 2 \<and> ncols P = 2 \<and> entry P 1 0 = Fin (3/8) \<and> entry P 1 1 = Fin (1/8))"
proof -
  have sh: "nrows Y_quarters = nrows Y_uniform" "ncols Y_quarters = ncols Y_uniform"
    by (simp_all add: Y_quarters_def)
  have d: "(0::int) < 2" by simp
  have n: "real_of_int 1 \<le> real_of_int 2 * ln (real_of_int 2)"
    using half_less_ln2 by simp
  from our_algo_degenerate_average[OF sh d n, of svd_diag Map.empty "1/10" "1/100" "1/2"]
  obtain P where P: "our_algo svd_diag Map.empty 1 2 Y_quarters Y_uniform (1/10) (1/100) (1/2) = Inr P"
    "nrows P = nrows Y_quarters" "ncols P = ncols Y_quarters"
    "\<And>i j. i < nrows Y_quarters \<Longrightarrow> j < ncols Y_quarters \<Longrightarrow>
       entry P i j = Fin ((entry Y_quarters i j + entry Y_uniform i j) / 2)"
    by blast
  have "entry P 1 0 = Fin (3/8)" "entry P 1 1 = Fin (1/8)"
    using P(4)[of 1 0] P(4)[of 1 1] by (simp_all add: Y_quarters_def Y_uniform_def)
  moreover have "nrows P = 2" "ncols P = 2" using P(2,3) by (simp_all add: Y_quarters_def)
  ultimately show ?thesis using sh d n P(1) by blast
qed

section \<open>The dyadic partition\<close>

text \<open>
  Claim C3, as stated, fails: the levels \<open>0..T\<close> only cover the marginal values up to 1.
  A row whose marginal exceeds 1 (a row of raw counts, as \<^verbatim>\<open>our_algo_2\<close> passes them) is in
  no bucket at all. Here \<open>d = 1\<close>, so \<open>T = 0\<close>, and the single row has marginal 2.
\<close>

theorem dyadic_partition_counterexample:
  "level_count 1 = Inr 0 \<and> length [2::real] = 1 \<and> bucket 0 0 [2] = []"
  by (simp add: level_count_def bucket_def np_argwhere_def)

text \<open>
  Claim C3, amended. With \<open>T = \<lfloor>log\<^sub>2 d\<rfloor>\<close>: index \<open>i\<close> is at level \<open>t < T\<close> iff
  \<open>2\<^sup>-\<^sup>t\<^sup>-\<^sup>1 < p[i] \<le> 2\<^sup>-\<^sup>t\<close> and at level \<open>T\<close> iff \<open>p[i] \<le> 2\<^sup>-\<^sup>T\<close> (so a value equal to a
  boundary \<open>2\<^sup>-\<^sup>t\<close> is at level \<open>t\<close>, and the value 1 at level 0); no bucket lists an index
  twice; every index whose marginal is at most 1 is in exactly one of the buckets
  \<open>0..T\<close>; and an index whose marginal exceeds 1 is in none.
\<close>

theorem dyadic_partition:
  assumes "level_count d = Inr T"
  shows "(\<forall>i t. i \<in> set (bucket T t p) \<longleftrightarrow>
            i < length p \<and> p ! i \<le> 2 powi (- int t) \<and> (t < T \<longrightarrow> 2 powi (- int t - 1) < p ! i))
       \<and> (\<forall>t. distinct (bucket T t p))
       \<and> (\<forall>i<length p. p ! i \<le> 1 \<longrightarrow> (\<exists>!t. t \<le> T \<and> i \<in> set (bucket T t p)))
       \<and> (\<forall>i<length p. 1 < p ! i \<longrightarrow> (\<forall>t\<le>T. i \<notin> set (bucket T t p)))"
proof (intro conjI allI impI)
  fix i t
  show "i \<in> set (bucket T t p) \<longleftrightarrow>
          i < length p \<and> p ! i \<le> 2 powi (- int t) \<and> (t < T \<longrightarrow> 2 powi (- int t - 1) < p ! i)"
    by (simp only: in_bucket pow2_neg pow2_neg1)
next
  fix t
  show "distinct (bucket T t p)"
    by (simp add: bucket_def distinct_np_argwhere)
next
  fix i
  assume "i < length p" "p ! i \<le> 1"
  then obtain t where t: "t \<le> T" "i \<in> set (bucket T t p)"
    using bucket_exists by blast
  show "\<exists>!t. t \<le> T \<and> i \<in> set (bucket T t p)"
  proof (rule ex1I[of _ t])
    show "t \<le> T \<and> i \<in> set (bucket T t p)" using t by simp
  next
    fix t'
    assume "t' \<le> T \<and> i \<in> set (bucket T t' p)"
    then show "t' = t" using t bucket_unique by blast
  qed
next
  fix i t
  assume "i < length p" "1 < p ! i" "t \<le> T"
  have "((1/2)::real) ^ t \<le> 1" by (simp add: power_le_one)
  with \<open>1 < p ! i\<close> show "i \<notin> set (bucket T t p)"
    by (auto simp: in_bucket)
qed

theorem dyadic_partition_witness:
  "level_count 2 = Inr 1
    \<and> (\<exists>!t. t \<le> 1 \<and> 1 \<in> set (bucket 1 t [1, 1/2, 1/4, 2]))
    \<and> 0 \<in> set (bucket 1 0 [1, 1/2, 1/4, 2])
    \<and> 1 \<in> set (bucket 1 1 [1, 1/2, 1/4, 2])
    \<and> 3 \<notin> set (bucket 1 0 [1, 1/2, 1/4, 2])
    \<and> 3 \<notin> set (bucket 1 1 [1, 1/2, 1/4, 2])"
proof -
  let ?p = "[1, 1/2, 1/4, 2::real]"
  have h: "level_count 2 = Inr 1" by (simp add: level_count_def)
  note P = dyadic_partition[OF h, of ?p]
  from P have P1: "\<And>i t. i \<in> set (bucket 1 t ?p) \<longleftrightarrow>
      i < length ?p \<and> ?p ! i \<le> 2 powi (- int t) \<and> (t < 1 \<longrightarrow> 2 powi (- int t - 1) < ?p ! i)"
    by blast
  from P have P3: "\<And>i. i < length ?p \<Longrightarrow> ?p ! i \<le> 1 \<Longrightarrow> \<exists>!t. t \<le> 1 \<and> i \<in> set (bucket 1 t ?p)"
    by blast
  from P have P4: "\<And>i. i < length ?p \<Longrightarrow> 1 < ?p ! i \<Longrightarrow> \<forall>t\<le>1. i \<notin> set (bucket 1 t ?p)"
    by blast
  have a: "\<exists>!t. t \<le> 1 \<and> 1 \<in> set (bucket 1 t ?p)"
    by (rule P3) simp_all
  have b: "0 \<in> set (bucket 1 0 ?p)"
    by (subst P1) (simp add: power_int_minus)
  have c: "1 \<in> set (bucket 1 1 ?p)"
    by (subst P1) (simp add: power_int_minus)
  have d: "\<forall>t\<le>1. 3 \<notin> set (bucket 1 t ?p)"
    by (rule P4) simp_all
  from d have e: "3 \<notin> set (bucket 1 0 ?p)" "3 \<notin> set (bucket 1 1 ?p)" by simp_all
  from h a b c e show ?thesis by blast
qed


section \<open>The result matrix of \<^verbatim>\<open>our_algo\<close> and the enclosing scope\<close>

text \<open>
  Claim C6 does not hold of the code. The assignment \<^verbatim>\<open>(d1,d2) = np.shape(Y1)\<close> at function
  entry is commented out, so \<^verbatim>\<open>np.zeros((d1,d2))\<close> reads \<^verbatim>\<open>d1\<close> and \<^verbatim>\<open>d2\<close> from the module's
  globals. With \<open>n = 2 > 2 \<cdot> ln 2\<close> and no such globals the call raises \<^verbatim>\<open>NameError\<close>, whatever
  the other arguments are; with globals \<^verbatim>\<open>d1 = d2 = 3\<close> and \<open>2 \<times> 2\<close> histograms the result
  has the shape \<open>3 \<times> 3\<close> of the globals, not that of the histograms.
\<close>

theorem our_algo_reads_globals:
  "our_algo svd Map.empty 2 2 Y1 Y2 alpha cstar Cbar = Inl (NameError ''d1'')
   \<and> (\<exists>P. our_algo svd_diag [''d1'' \<mapsto> PyInt 3, ''d2'' \<mapsto> PyInt 3] 2 2 (np_zeros 2 2) (np_zeros 2 2)
             (1/10) (1/100) (1/2) = Inr P \<and> nrows P = 3 \<and> ncols P = 3)"
proof
  show "our_algo svd Map.empty 2 2 Y1 Y2 alpha cstar Cbar = Inl (NameError ''d1'')"
    using two_ln2_less by (simp add: our_algo_def assemble_def alloc_res_def)
next
  let ?g = "[''d1'' \<mapsto> PyInt 3, ''d2'' \<mapsto> PyInt 3]"
  have "\<exists>res. assemble svd_diag ?g 2 2 (np_zeros 2 2) (np_zeros 2 2) (1/10) (1/100) (1/2) = Inr res
            \<and> nrows res = nat 3 \<and> ncols res = nat 3"
    by (rule assemble_succeeds[OF _ _ _ _ _ _ _ svd_shapes_svd_diag]) (simp_all add: np_zeros_def)
  then obtain res where "assemble svd_diag ?g 2 2 (np_zeros 2 2) (np_zeros 2 2) (1/10) (1/100) (1/2) = Inr res"
    "nrows res = 3" "ncols res = 3" by auto
  then show "\<exists>P. our_algo svd_diag ?g 2 2 (np_zeros 2 2) (np_zeros 2 2) (1/10) (1/100) (1/2) = Inr P
      \<and> nrows P = 3 \<and> ncols P = 3"
    using two_ln2_less by (simp add: our_algo_def divide_by_sum_def)
qed


section \<open>Normalisation\<close>

text \<open>
  Claim C1, as stated, fails in its second half: the code has no \<^verbatim>\<open>DegenerateInput\<close> error
  (nor any other error type of its own). For all-zero histograms the total is zero, the
  call returns normally, and every entry of the returned matrix is \<^verbatim>\<open>nan\<close>.
\<close>

theorem zero_total_counterexample:
  "map_sum id tolist
     (our_algo svd_diag globals_2x2 2 2 (np_zeros 2 2) (np_zeros 2 2) (1/10) (1/100) (1/2))
   = Inr [[NaN, NaN], [NaN, NaN]]"
proof -
  obtain res where res: "assemble svd_diag globals_2x2 2 2 (np_zeros 2 2) (np_zeros 2 2) (1/10) (1/100) (1/2) = Inr res"
    "nrows res = 2" "ncols res = 2"
    using assemble_2x2[of "np_zeros 2 2" "np_zeros 2 2" "1/10" "1/100" "1/2"] by (auto simp: np_zeros_def)
  have z: "entry res r c = 0" for r c
    by (rule assemble_zero[OF res(1)]) (simp_all add: np_zeros_def energy_cutoff_2_2)
  then have s: "np_sum res = 0" by (rule np_sum_zero)
  have "our_algo svd_diag globals_2x2 2 2 (np_zeros 2 2) (np_zeros 2 2) (1/10) (1/100) (1/2)
          = Inr (divide_by_sum res)"
    using two_ln2_less res(1) by (simp add: our_algo_def)
  moreover have "tolist (divide_by_sum res) = [[NaN, NaN], [NaN, NaN]]"
    using res(2,3) by (simp add: tolist_2x2 divide_by_sum_def z s np_true_divide_def)
  ultimately show ?thesis by simp
qed


text \<open>
  Claim C1, amended. When \<open>n > d \<cdot> ln d\<close>, the names \<^verbatim>\<open>d1\<close>, \<^verbatim>\<open>d2\<close> are bound in the
  enclosing scope to the shape of \<open>Y1\<close>, \<open>Y2\<close> has that shape and the SVD routine returns
  factors of the documented shapes, then the block assembly succeeds with a matrix
  \<open>res\<close> and \<^verbatim>\<open>our_algo\<close> returns \<open>res\<close> divided entrywise by its total sum, in numpy's
  division. If the total is not zero the entries are finite and sum to 1. If the total
  is zero no error is raised: a zero entry becomes \<^verbatim>\<open>nan\<close> and a non-zero entry an infinity
  of its sign.
\<close>

theorem our_algo_divides_by_total:
  assumes "genv ''d1'' = Some (PyInt (int (nrows Y1)))"
    and "genv ''d2'' = Some (PyInt (int (ncols Y1)))"
    and "nrows Y2 = nrows Y1" and "ncols Y2 = ncols Y1"
    and "svd_shapes svd"
    and "0 < d" and "real_of_int d * ln (real_of_int d) < real_of_int n"
  shows "\<exists>res P. assemble svd genv n d Y1 Y2 alpha cstar Cbar = Inr res
      \<and> nrows res = nrows Y1 \<and> ncols res = ncols Y1
      \<and> our_algo svd genv n d Y1 Y2 alpha cstar Cbar = Inr P
      \<and> nrows P = nrows Y1 \<and> ncols P = ncols Y1
      \<and> (\<forall>i j. entry P i j = np_true_divide (entry res i j) (np_sum res))
      \<and> (np_sum res \<noteq> 0 \<longrightarrow>
            (\<forall>i j. entry P i j = Fin (entry res i j / np_sum res))
            \<and> (\<Sum>i<nrows P. \<Sum>j<ncols P. entry res i j / np_sum res) = 1)
      \<and> (np_sum res = 0 \<longrightarrow>
            (\<forall>i j. entry P i j =
               (if entry res i j = 0 then NaN else if 0 < entry res i j then PosInf else NegInf)))"
proof -
  obtain res where res: "assemble svd genv n d Y1 Y2 alpha cstar Cbar = Inr res"
    "nrows res = nrows Y1" "ncols res = ncols Y1"
    using assemble_succeeds[OF assms(1,2) _ _ _ _ assms(6,5),
        where ?Y2.0 = Y2 and n = n and alpha = alpha and cstar = cstar and Cbar = Cbar] assms(3,4)
    by auto
  have P: "our_algo svd genv n d Y1 Y2 alpha cstar Cbar = Inr (divide_by_sum res)"
    using assms(7) res(1) by (simp add: our_algo_def)
  have one: "(\<Sum>i<nrows Y1. \<Sum>j<ncols Y1. entry res i j / np_sum res) = 1" if "np_sum res \<noteq> 0"
    using sum_of_quotients[where f = "entry res" and r = "nrows res" and c = "ncols res"] that
    by (simp add: np_sum_def res(2,3))
  show ?thesis
    apply (rule exI[of _ res], rule exI[of _ "divide_by_sum res"])
    using res P one by (simp add: divide_by_sum_def np_true_divide_def)
qed

theorem our_algo_divides_by_total_witness:
  "globals_2x2 ''d1'' = Some (PyInt (int (nrows Y_uniform)))
   \<and> globals_2x2 ''d2'' = Some (PyInt (int (ncols Y_uniform)))
   \<and> nrows Y_diag = nrows Y_uniform \<and> ncols Y_diag = ncols Y_uniform
   \<and> svd_shapes svd_diag \<and> (0::int) < 2
   \<and> real_of_int 2 * ln (real_of_int 2) < real_of_int 2
   \<and> (\<exists>res P. assemble svd_diag globals_2x2 2 2 Y_uniform Y_diag 2 (1/5) 1 = Inr res
         \<and> our_algo svd_diag globals_2x2 2 2 Y_uniform Y_diag 2 (1/5) 1 = Inr P
         \<and> np_sum res = 1
         \<and> tolist P = [[Fin (1/2), Fin 0], [Fin 0, Fin (1/2)]])"
proof -
  have g: "globals_2x2 ''d1'' = Some (PyInt (int (nrows Y_uniform)))"
    "globals_2x2 ''d2'' = Some (PyInt (int (ncols Y_uniform)))"
    by (simp_all add: globals_2x2_lookup)
  have sh: "nrows Y_diag = nrows Y_uniform" "ncols Y_diag = ncols Y_uniform" by simp_all
  have d: "(0::int) < 2" by simp
  from our_algo_divides_by_total[OF g sh svd_shapes_svd_diag d two_ln2_less, of 2 "1/5" 1]
  obtain res P where r: "assemble svd_diag globals_2x2 2 2 Y_uniform Y_diag 2 (1/5) 1 = Inr res"
    "nrows res = 2" "ncols res = 2"
    "our_algo svd_diag globals_2x2 2 2 Y_uniform Y_diag 2 (1/5) 1 = Inr P"
    "nrows P = 2" "ncols P = 2"
    "\<And>i j. entry P i j = np_true_divide (entry res i j) (np_sum res)"
    by auto
  have e: "np_sum (submatrix Y_diag (bucket 1 1 (np_sum_axis1 Y_uniform)) (bucket 1 1 (np_sum_axis0 Y_uniform)))
        < energy_cutoff 2 2 2 1"
    unfolding bucket_uniform np_sum_diag_block energy_cutoff_2_2 by simp
  have le: "(1::nat) \<le> 1" by simp
  have copy: "entry res i j = entry Y_diag i j" if "i \<in> {0, 1}" "j \<in> {0, 1}" for i j
  proof (rule assemble_copy_entry[OF r(1) level_count_2 le le e])
    show "i \<in> set (bucket 1 1 (np_sum_axis1 Y_uniform))" unfolding bucket_uniform using that by simp
    show "j \<in> set (bucket 1 1 (np_sum_axis0 Y_uniform))" unfolding bucket_uniform using that by simp
  qed
  have ent: "entry res 0 0 = 1/2" "entry res 0 1 = 0" "entry res 1 0 = 0" "entry res 1 1 = 1/2"
    using copy[of 0 0] copy[of 0 1] copy[of 1 0] copy[of 1 1] by (simp_all add: Y_diag_def)
  have s: "np_sum res = 1"
    unfolding np_sum_shape_2x2[OF r(2,3)] ent by simp
  have "tolist P = [[Fin (1/2), Fin 0], [Fin 0, Fin (1/2)]]"
    unfolding tolist_2x2[OF r(5,6)] r(7) s ent by (simp add: np_true_divide_def)
  with g sh svd_shapes_svd_diag d two_ln2_less r(1,4) s show ?thesis by blast
qed

section \<open>The energy test\<close>

text \<open>
  Claim C4. In the non-degenerate branch, when the assembly of the result succeeds with
  \<open>res\<close> (the matrix that is then divided by its sum), every block \<open>(I\<^sub>t, J\<^sub>u)\<close> whose
  submatrix \<open>M\<close> of \<open>Y2\<close> has \<open>sum(M) < 2\<cdot>Cbar\<cdot>alpha\<cdot>ln d / (n\<cdot>ln 2)\<close> is a verbatim copy of
  \<open>Y2\<close>: \<open>res[i,j] = Y2[i,j]\<close> for all \<open>i \<in> I\<^sub>t\<close>, \<open>j \<in> J\<^sub>u\<close>. No later block overwrites it,
  since the buckets are pairwise disjoint.
\<close>

theorem energy_test_copies_block:
  assumes "real_of_int d * ln (real_of_int d) < real_of_int n"
    and "assemble svd genv n d Y1 Y2 alpha cstar Cbar = Inr res"
    and "level_count d = Inr T" and "t \<le> T" and "u \<le> T"
    and "np_sum (submatrix Y2 (bucket T t (np_sum_axis1 Y1)) (bucket T u (np_sum_axis0 Y1)))
           < energy_cutoff n d alpha Cbar"
    and "i \<in> set (bucket T t (np_sum_axis1 Y1))" and "j \<in> set (bucket T u (np_sum_axis0 Y1))"
  shows "our_algo svd genv n d Y1 Y2 alpha cstar Cbar = Inr (divide_by_sum res)
       \<and> entry res i j = entry Y2 i j"
proof
  show "our_algo svd genv n d Y1 Y2 alpha cstar Cbar = Inr (divide_by_sum res)"
    using assms(1,2) by (simp add: our_algo_def)
next
  show "entry res i j = entry Y2 i j"
    by (rule assemble_copy_entry[OF assms(2-8)])
qed

theorem energy_test_copies_block_witness:
  "real_of_int 2 * ln (real_of_int 2) < real_of_int 2
   \<and> level_count 2 = Inr 1
   \<and> np_sum (submatrix Y_diag (bucket 1 1 (np_sum_axis1 Y_uniform)) (bucket 1 1 (np_sum_axis0 Y_uniform)))
        < energy_cutoff 2 2 2 1
   \<and> 0 \<in> set (bucket 1 1 (np_sum_axis1 Y_uniform))
   \<and> 0 \<in> set (bucket 1 1 (np_sum_axis0 Y_uniform))
   \<and> (\<exists>res. assemble svd_diag globals_2x2 2 2 Y_uniform Y_diag 2 (1/5) 1 = Inr res
         \<and> our_algo svd_diag globals_2x2 2 2 Y_uniform Y_diag 2 (1/5) 1 = Inr (divide_by_sum res)
         \<and> entry res 0 0 = 1/2)"
proof -
  obtain res where res: "assemble svd_diag globals_2x2 2 2 Y_uniform Y_diag 2 (1/5) 1 = Inr res"
    using assemble_2x2[of Y_uniform Y_diag 2 "1/5" 1] by auto
  have e: "np_sum (submatrix Y_diag (bucket 1 1 (np_sum_axis1 Y_uniform)) (bucket 1 1 (np_sum_axis0 Y_uniform)))
        < energy_cutoff 2 2 2 1"
    unfolding bucket_uniform np_sum_diag_block energy_cutoff_2_2 by simp
  have i: "0 \<in> set (bucket 1 1 (np_sum_axis1 Y_uniform))" unfolding bucket_uniform by simp
  have j: "0 \<in> set (bucket 1 1 (np_sum_axis0 Y_uniform))" unfolding bucket_uniform by simp
  have le: "(1::nat) \<le> 1" by simp
  from energy_test_copies_block[OF two_ln2_less res level_count_2 le le e i j]
  have "our_algo svd_diag globals_2x2 2 2 Y_uniform Y_diag 2 (1/5) 1 = Inr (divide_by_sum res)"
    "entry res 0 0 = 1/2" by (simp_all add: Y_diag_def)
  with res e i j two_ln2_less level_count_2 show ?thesis by blast
qed

section \<open>Singular value truncation\<close>

text \<open>
  Claim C5. Take a block \<open>(I, J)\<close> at levels \<open>(t, u)\<close> that passes the energy test, in a
  call whose assembly succeeds with \<open>res\<close>, with \<open>cstar \<ge> 0\<close>, and let \<open>(U, s, Vh)\<close> be what
  the SVD routine returns for the block, of the documented shapes and with \<open>s\<close> in
  non-increasing order. Then the threshold is \<open>tau = ln d \<cdot> sqrt (cstar \<cdot> 2\<^sup>1\<^sup>-\<^sup>m\<^sup>i\<^sup>n\<^sup>(\<^sup>t\<^sup>,\<^sup>u\<^sup>) / n)\<close>;
  the retained singular values \<^verbatim>\<open>s[:l]\<close> are exactly the singular values \<open>\<ge> tau\<close>; their
  count \<open>l\<close> is at most \<open>min (rows, cols)\<close> of the block; the block of \<open>res\<close> holds the
  reconstruction \<open>\<Sum>k<l. U[a,k] \<cdot> s[k] \<cdot> Vh[k,b]\<close> from the retained components only; and
  when \<open>l = 0\<close> the block of \<open>res\<close> is all zeros.
\<close>

theorem svd_truncation:
  assumes "0 < d" and "real_of_int d * ln (real_of_int d) < real_of_int n" and "0 \<le> cstar"
    and "assemble svd genv n d Y1 Y2 alpha cstar Cbar = Inr res"
    and "level_count d = Inr T" and "t \<le> T" and "u \<le> T"
    and "I = bucket T t (np_sum_axis1 Y1)" and "J = bucket T u (np_sum_axis0 Y1)"
    and "\<not> np_sum (submatrix Y2 I J) < energy_cutoff n d alpha Cbar"
    and "svd (submatrix Y2 I J) = (U, s, Vh)"
    and "nrows U = length I" and "ncols U = length I"
    and "length s = min (length I) (length J)"
    and "nrows Vh = length J" and "ncols Vh = length J"
    and "sorted_wrt (\<ge>) s"
    and "l = rank_l (tau n d cstar t u) s"
  shows "tau n d cstar t u
           = Some (ln (real_of_int d) * sqrt (cstar * 2 powi (1 - int (min t u)) / real_of_int n))
       \<and> take l s
           = filter (\<lambda>x. x \<ge> ln (real_of_int d) * sqrt (cstar * 2 powi (1 - int (min t u)) / real_of_int n)) s
       \<and> l \<le> min (length I) (length J)
       \<and> (\<forall>a<length I. \<forall>b<length J.
             entry res (I ! a) (J ! b) = (\<Sum>k<l. entry U a k * s ! k * entry Vh k b))
       \<and> (l = 0 \<longrightarrow> (\<forall>i\<in>set I. \<forall>j\<in>set J. entry res i j = 0))"
proof -
  let ?ta = "ln (real_of_int d) * sqrt (cstar * 2 powi (1 - int (min t u)) / real_of_int n)"
  have n: "0 < n" by (rule sample_size_pos[OF assms(1,2)])
  have tau: "tau n d cstar t u = Some ?ta" by (rule tau_Some[OF assms(3) n])
  have l: "l = length (filter (\<lambda>x. ?ta \<le> x) s)"
    using assms(18) by (simp add: tau rank_l_def)
  have take: "take l s = filter (\<lambda>x. x \<ge> ?ta) s"
    unfolding l by (rule filter_take_sorted[OF assms(17)])
  have le: "l \<le> length s" unfolding l by simp
  then have lmin: "l \<le> min (length I) (length J)" using assms(14) by simp
  from assemble_block_written[OF assms(4-7)]
  obtain V where V: "block_values svd n d Y2 alpha cstar Cbar I J t u = Inr V"
    "\<And>a b. a < length I \<Longrightarrow> b < length J \<Longrightarrow> entry res (I ! a) (J ! b) = V a b"
    unfolding block_written_def assms(8,9)[symmetric] by blast
  from block_values_svd[OF V(1) assms(10,11)]
  obtain H where H: "reconstruct U s Vh l = Inr H" "V = entry H"
    unfolding assms(18) by blast
  have ent: "entry H a b = (\<Sum>k<l. entry U a k * s ! k * entry Vh k b)" for a b
    by (rule reconstruct_entries[OF H(1) assms(13,12,14,15,16) le])
  have written: "\<forall>a<length I. \<forall>b<length J.
             entry res (I ! a) (J ! b) = (\<Sum>k<l. entry U a k * s ! k * entry Vh k b)"
    using V(2) ent by (simp add: H(2))
  have zero: "\<forall>i\<in>set I. \<forall>j\<in>set J. entry res i j = 0" if "l = 0"
  proof (intro ballI)
    fix i j assume "i \<in> set I" "j \<in> set J"
    then obtain a b where "a < length I" "I ! a = i" "b < length J" "J ! b = j"
      by (metis in_set_conv_nth)
    with written that show "entry res i j = 0" by fastforce
  qed
  from tau take lmin written zero show ?thesis by blast
qed

theorem svd_truncation_witness:
  "(0::int) < 2 \<and> real_of_int 2 * ln (real_of_int 2) < real_of_int 2 \<and> (0::real) \<le> 8
   \<and> level_count 2 = Inr 1
   \<and> [0, 1] = bucket 1 1 (np_sum_axis1 Y_uniform) \<and> [0, 1] = bucket 1 1 (np_sum_axis0 Y_uniform)
   \<and> \<not> np_sum (submatrix Y_diag [0, 1] [0, 1]) < energy_cutoff 2 2 (1/10) (1/2)
   \<and> svd_diag (submatrix Y_diag [0, 1] [0, 1])
        = (NDArray 2 2 (\<lambda>i j. if i = j then 1 else 0), [1/2, 1/2],
           NDArray 2 2 (\<lambda>i j. if i = j then 1 else 0))
   \<and> sorted_wrt (\<ge>) [1/2, 1/2 :: real]
   \<and> rank_l (tau 2 2 8 1 1) [1/2, 1/2] = 0
   \<and> (\<exists>res. assemble svd_diag globals_2x2 2 2 Y_uniform Y_diag (1/10) 8 (1/2) = Inr res
         \<and> entry res 0 0 = 0 \<and> entry res 0 1 = 0 \<and> entry res 1 0 = 0 \<and> entry res 1 1 = 0)
   \<and> rank_l (tau 2 2 (1/8) 1 1) [1/2, 1/2] = 2
   \<and> (\<exists>res. assemble svd_diag globals_2x2 2 2 Y_uniform Y_diag (1/10) (1/8) (1/2) = Inr res
         \<and> entry res 0 0 = 1/2 \<and> entry res 0 1 = 0 \<and> entry res 1 0 = 0 \<and> entry res 1 1 = 1/2)"
proof -
  let ?I = "[0, 1 :: nat]"
  let ?E = "NDArray 2 2 (\<lambda>i j :: nat. if i = j then 1 else 0 :: real)"
  have d: "(0::int) < 2" and c8: "(0::real) \<le> 8" and c18: "(0::real) \<le> 1/8" and le: "(1::nat) \<le> 1"
    by simp_all
  have I: "?I = bucket 1 1 (np_sum_axis1 Y_uniform)" and J: "?I = bucket 1 1 (np_sum_axis0 Y_uniform)"
    by (simp_all only: bucket_uniform)
  have sh: "nrows ?E = length ?I" "ncols ?E = length ?I" "length [1/2, 1/2 :: real] = min (length ?I) (length ?I)"
    by simp_all
  have so: "sorted_wrt (\<ge>) [1/2, 1/2 :: real]" by simp
  obtain res where res: "assemble svd_diag globals_2x2 2 2 Y_uniform Y_diag (1/10) 8 (1/2) = Inr res"
    using assemble_2x2[of Y_uniform Y_diag "1/10" 8 "1/2"] by auto
  note A = svd_truncation[OF d two_ln2_less c8 res level_count_2 le le I J energy_example
      svd_diag_block sh(1,2,3) sh(1,2) so rank_example_high[symmetric]]
  from A have "\<forall>i\<in>set ?I. \<forall>j\<in>set ?I. entry res i j = 0" by blast
  then have z: "entry res 0 0 = 0" "entry res 0 1 = 0" "entry res 1 0 = 0" "entry res 1 1 = 0"
    by simp_all
  obtain res' where res': "assemble svd_diag globals_2x2 2 2 Y_uniform Y_diag (1/10) (1/8) (1/2) = Inr res'"
    using assemble_2x2[of Y_uniform Y_diag "1/10" "1/8" "1/2"] by auto
  note B = svd_truncation[OF d two_ln2_less c18 res' level_count_2 le le I J energy_example
      svd_diag_block sh(1,2,3) sh(1,2) so rank_example_low[symmetric]]
  from B have W: "\<And>a b. a < 2 \<Longrightarrow> b < 2 \<Longrightarrow>
      entry res' (?I ! a) (?I ! b) = (\<Sum>k<2. entry ?E a k * [1/2, 1/2] ! k * entry ?E k b)"
    by simp
  have f: "entry res' 0 0 = 1/2" "entry res' 0 1 = 0" "entry res' 1 0 = 0" "entry res' 1 1 = 1/2"
    using W[of 0 0] W[of 0 1] W[of 1 0] W[of 1 1] by (simp_all add: lessThan_Suc numeral_2_eq_2)
  from d two_ln2_less c8 level_count_2 I J energy_example svd_diag_block so rank_example_high
    res z rank_example_low res' f
  show ?thesis by blast
qed

section \<open>The univariate estimator\<close>



text \<open>
  Claim C8 does not hold of the code. The lookup in \<^verbatim>\<open>f_1\<close> tests \<open>i\<cdot>H \<le> x \<le> (i+1)\<cdot>H\<close>: both
  ends are closed and the offset \<open>r\<close> of the bins is missing, and it adds \<^verbatim>\<open>N[i]\<close>, indexed by
  the offset, where the count was stored at the position \<open>c\<close>. The bivariate \<^verbatim>\<open>f_1\<close> does
  all three as the claim says. Here \<open>r = 0\<close>, \<open>R = 1\<close>, \<open>n = 8\<close>, \<open>L = 4\<close>, so \<open>H = 1/4\<close> and the
  offsets are 0, 1, 2; the estimation half has one sample in \<open>[0, 1/4)\<close> and two in
  \<open>[1/4, 1/2)\<close>. The point \<open>x = 1/4\<close> lies in the second bin only, so the claim gives
  \<open>2 / H = 8\<close>; the code adds the counts of the first and the second bin and
  returns \<open>3 / H = 12\<close>.
\<close>

theorem boundary_point_counts_two_bins:
  "call_density1 (our_algo_3 float_pow 8 Z_bins (Pos 4)) (1/4) = Inr (Fin 12)
   \<and> bin_width float_pow 1 8 (Pos 4) = Inr (1/4)
   \<and> real (length (filter (\<lambda>k. 0 + 1 * (1/4) \<le> k \<and> k < 0 + (1 + 1) * (1/4)) (drop 5 Z_bins))) / (1/4) = 8"
proof -
  have nt: "\<not> narrow_test float_pow (1 - 0) (float_pow (real (length Z_bins)) (- 1 / 3)) (Pos 4)"
    using narrow_8_4 by simp
  have bw: "bin_width float_pow (1 - 0) (length Z_bins) (Pos 4) = Inr (1/4)"
    using bin_width_8_4 by simp
  have "our_algo_3 float_pow 8 Z_bins (Pos 4)
          = Inr (f_1_univariate 0 (1/4) [0, 1, 2] [1/10, 3/10, 3/10])"
    using nt bw by (simp add: our_algo_3_def Let_def Z_bins_def grid_offsets_bins)
  then have "call_density1 (our_algo_3 float_pow 8 Z_bins (Pos 4)) (1/4) = Inr (Fin 12)"
    by (simp add: call_density1_def f_1_boundary)
  moreover have "real (length (filter (\<lambda>k. 0 + 1 * (1/4) \<le> k \<and> k < 0 + (1 + 1) * (1/4)) (drop 5 Z_bins))) / (1/4) = 8"
    by (simp add: Z_bins_def)
  ultimately show ?thesis using bin_width_8_4 by blast
qed

section \<open>The bivariate estimator\<close>

text \<open>
  Claim C9 does not hold of the code. Line 309 passes \<^verbatim>\<open>np.max(len(E_1),len(E_2))\<close> as the
  dimension bound: numpy's \<^verbatim>\<open>max\<close> takes the second argument as the axis to reduce along,
  and a number has none, so the call raises \<^verbatim>\<open>AxisError\<close> whenever \<^verbatim>\<open>E_2\<close> is not empty. For
  eight samples whose calibration ranges are 2 on both axes and \<open>L = 1\<close>, both widths are
  \<open>1/2\<close>, both offset lists are \<open>[0]\<close>, and the general branch ends in that error before
  the low-rank estimator is called: no density function is returned.
\<close>

theorem np_max_called_with_axis:
  "snd (our_algo_2 float_pow svd Map.empty 8 X_grid alpha (Pos 1) C Cbar cstar) = Inl AxisError"
  using narrow_8_1
  by (simp add: our_algo_2_def bandwidth_h_def our_algo_2_body_def Let_def X_grid_def
      general_branch_grid[unfolded X_grid_def])

section \<open>The bin width\<close>




end
